(* ===== verification/Zs_Prelude.thy ===== *)
theory Zs_Prelude
  imports Main "HOL-Library.AList" "HOL-Library.Multiset"
begin

text \<open>
  Shared ground of the development.
  \<^item> \<^emph>\<open>Errors.\<close> A Go \<open>error\<close> is a message together with the sentinel errors it wraps:
    \<open>errors.Is\<close> looks at the second part, and the program's own error classifiers read
    the first. A fallible function returns \<open>go_error + 'a\<close>.
  \<^item> \<^emph>\<open>Maps.\<close> A Go map is an association list with distinct keys. The interface it offers is
    the locale \<open>go_map\<close>, interpreted on these lists as \<open>gm\<close>.
  \<^item> \<^emph>\<open>Range order.\<close> Go leaves the order of a \<open>range\<close> over a map unspecified. Every model
    function that ranges over a map takes the order as an argument, a function that permutes
    the key list, and \<open>is_order\<close> states what the language promises of it.
\<close>

named_theorems go_defs \<open>definitions of small Go operations, unfolded together\<close>
named_theorems inv_intros \<open>introduction rules for component invariants\<close>
named_theorems frame_simps \<open>what an operation leaves unchanged\<close>

section \<open>Errors as values\<close>

text \<open>The sentinel errors the program compares with \<open>errors.Is\<close>.\<close>

datatype sentinel =
    ErrRouteNotFound
  | ErrNoAliveBackends
  | NetErrClosed
  | OsErrClosed
  | HttpErrServerClosed

record go_error =
  err_msg :: string
  err_is :: "sentinel list"

type_synonym 'a result = "go_error + 'a"

definition errors_New :: "string \<Rightarrow> go_error" where
  [go_defs]: "errors_New m = \<lparr>err_msg = m, err_is = []\<rparr>"

definition errors_Is :: "go_error \<Rightarrow> sentinel \<Rightarrow> bool" where
  [go_defs]: "errors_Is e s \<longleftrightarrow> s \<in> set (err_is e)"

text \<open>\<open>fmt.Errorf("<prefix>: %w", e)\<close>: the prefix is put in front, the sentinels are kept.\<close>

definition errorf_w :: "string \<Rightarrow> go_error \<Rightarrow> go_error" where
  [go_defs]: "errorf_w p e = \<lparr>err_msg = p @ '': '' @ err_msg e, err_is = err_is e\<rparr>"

lemma err_is_errorf_w [simp]: "err_is (errorf_w p e) = err_is e"
  by (simp add: errorf_w_def)

lemma err_is_errors_New [simp]: "err_is (errors_New m) = []"
  by (simp add: errors_New_def)

lemma err_msg_errorf_w: "err_msg (errorf_w p e) = p @ '': '' @ err_msg e"
  by (simp add: errorf_w_def)

lemma errors_Is_errorf_w [simp]: "errors_Is (errorf_w p e) s \<longleftrightarrow> errors_Is e s"
  by (simp add: errors_Is_def)

lemma errors_Is_New [simp]: "\<not> errors_Is (errors_New m) s"
  by (simp add: errors_Is_def)

text \<open>Sequencing of fallible steps: the first error is returned (\<open>if err != nil { return err }\<close>).\<close>

definition and_then :: "'e + 'a \<Rightarrow> ('a \<Rightarrow> 'e + 'b) \<Rightarrow> 'e + 'b" where
  "and_then r f = (case r of Inl e \<Rightarrow> Inl e | Inr x \<Rightarrow> f x)"

lemma and_then_simps [simp]:
  "and_then (Inl e) f = Inl e"
  "and_then (Inr x) f = f x"
  by (simp_all add: and_then_def)

lemma and_then_Inr_iff: "and_then r f = Inr y \<longleftrightarrow> (\<exists>x. r = Inr x \<and> f x = Inr y)"
  by (cases r) auto

lemma and_then_Inl_iff: "and_then r f = Inl e \<longleftrightarrow> r = Inl e \<or> (\<exists>x. r = Inr x \<and> f x = Inl e)"
  by (cases r) auto

definition is_ok :: "'e + 'a \<Rightarrow> bool" where
  "is_ok r = (case r of Inl _ \<Rightarrow> False | Inr _ \<Rightarrow> True)"

lemma is_ok_simps [simp]: "\<not> is_ok (Inl e)" "is_ok (Inr x)"
  by (simp_all add: is_ok_def)

lemma is_ok_iff: "is_ok r \<longleftrightarrow> (\<exists>x. r = Inr x)"
  by (cases r) auto

section \<open>Searching a list\<close>

lemma find_append: "find P (xs @ ys) = (case find P xs of Some x \<Rightarrow> Some x | None \<Rightarrow> find P ys)"
  by (induction xs) auto

lemma find_SomeD: "find P xs = Some x \<Longrightarrow> x \<in> set xs \<and> P x"
  by (auto simp: find_Some_iff)

lemma find_not_None: "x \<in> set xs \<Longrightarrow> P x \<Longrightarrow> find P xs \<noteq> None"
  by (auto simp: find_None_iff)

lemma find_rev_distinct:
  assumes "distinct (map f xs)" and "x \<in> set xs"
  shows "find (\<lambda>y. f y = f x) (rev xs) = Some x"
proof (cases "find (\<lambda>y. f y = f x) (rev xs)")
  case None
  then show ?thesis
    using assms(2) by (auto simp: find_None_iff)
next
  case (Some y)
  then have "y \<in> set xs" and "f y = f x"
    by (auto dest: find_SomeD)
  then show ?thesis
    using Some assms by (auto simp: distinct_map dest: inj_onD)
qed

text \<open>Counting the elements of a list that satisfy a predicate, when one element is replaced.\<close>

lemma length_filter_update:
  assumes "i < length xs"
  shows "length (filter P (xs[i := y])) + of_bool (P (xs ! i)) = length (filter P xs) + of_bool (P y)"
proof -
  have "length (filter P xs) = length (filter P (take i xs @ xs ! i # drop (Suc i) xs))"
    using id_take_nth_drop [OF assms] by simp
  then show ?thesis
    by (simp add: upd_conv_take_nth_drop [OF assms])
qed

section \<open>Go maps\<close>

text \<open>The contract of a Go map: what a lookup, an insertion, a deletion and \<open>len\<close> promise.\<close>

locale go_map =
  fixes empty :: 'm
    and get :: "'m \<Rightarrow> 'k \<Rightarrow> 'v option"
    and put :: "'k \<Rightarrow> 'v \<Rightarrow> 'm \<Rightarrow> 'm"
    and del :: "'k \<Rightarrow> 'm \<Rightarrow> 'm"
    and keys :: "'m \<Rightarrow> 'k list"
    and inv :: "'m \<Rightarrow> bool"
  assumes get_empty: "get empty k = None"
    and get_put: "get (put k v m) j = (if j = k then Some v else get m j)"
    and get_del: "inv m \<Longrightarrow> get (del k m) j = (if j = k then None else get m j)"
    and keys_get: "set (keys m) = {k. get m k \<noteq> None}"
    and inv_keys: "inv m \<Longrightarrow> distinct (keys m)"
    and inv_empty: "inv empty"
    and inv_put: "inv m \<Longrightarrow> inv (put k v m)"
    and inv_del: "inv m \<Longrightarrow> inv (del k m)"
begin

lemma get_put_same: "get (put k v m) k = Some v"
  by (simp add: get_put)

lemma get_put_other: "j \<noteq> k \<Longrightarrow> get (put k v m) j = get m j"
  by (simp add: get_put)

lemma keys_put: "set (keys (put k v m)) = insert k (set (keys m))"
  by (auto simp: keys_get get_put)

lemma len_put:
  assumes "inv m"
  shows "length (keys (put k v m)) =
    (if get m k = None then Suc (length (keys m)) else length (keys m))"
proof -
  have "length (keys (put k v m)) = card (insert k (set (keys m)))"
    using inv_keys [OF inv_put [OF assms]] distinct_card keys_put by metis
  moreover have "card (set (keys m)) = length (keys m)"
    using inv_keys [OF assms] by (rule distinct_card)
  moreover have "k \<in> set (keys m) \<longleftrightarrow> get m k \<noteq> None"
    by (simp add: keys_get)
  ultimately show ?thesis
    by (simp add: insert_absorb card_insert_if)
qed

lemma put_del_frame: "inv m \<Longrightarrow> get m k = None \<Longrightarrow> get (del k (put k v m)) j = get m j"
  by (simp add: get_del get_put inv_put)

end

type_synonym ('k, 'v) gomap = "('k \<times> 'v) list"

definition gm_empty :: "('k, 'v) gomap" where
  "gm_empty = []"

definition gm_get :: "('k, 'v) gomap \<Rightarrow> 'k \<Rightarrow> 'v option" where
  "gm_get m k = map_of m k"

definition gm_put :: "'k \<Rightarrow> 'v \<Rightarrow> ('k, 'v) gomap \<Rightarrow> ('k, 'v) gomap" where
  "gm_put k v m = AList.update k v m"

definition gm_del :: "'k \<Rightarrow> ('k, 'v) gomap \<Rightarrow> ('k, 'v) gomap" where
  "gm_del k m = AList.delete k m"

definition gm_keys :: "('k, 'v) gomap \<Rightarrow> 'k list" where
  "gm_keys m = map fst m"

definition gm_inv :: "('k, 'v) gomap \<Rightarrow> bool" where
  "gm_inv m \<longleftrightarrow> distinct (map fst m)"

interpretation gm: go_map gm_empty gm_get gm_put gm_del gm_keys gm_inv
proof unfold_locales
  fix m :: "('a, 'b) gomap" and k j :: 'a and v :: 'b
  show "gm_get gm_empty k = (None :: 'b option)"
    by (simp add: gm_get_def gm_empty_def)
  show "gm_get (gm_put k v m) j = (if j = k then Some v else gm_get m j)"
    by (simp add: gm_get_def gm_put_def update_conv')
  show "gm_get (gm_del k m) j = (if j = k then None else gm_get m j)"
    by (simp add: gm_get_def gm_del_def delete_conv')
  show "set (gm_keys m) = {k. gm_get m k \<noteq> None}"
    by (auto simp: gm_keys_def gm_get_def map_of_eq_None_iff)
  show "gm_inv m \<Longrightarrow> distinct (gm_keys m)"
    by (simp add: gm_inv_def gm_keys_def)
  show "gm_inv (gm_empty :: ('a, 'b) gomap)"
    by (simp add: gm_inv_def gm_empty_def)
  show "gm_inv m \<Longrightarrow> gm_inv (gm_put k v m)"
    by (simp add: gm_inv_def gm_put_def distinct_update)
  show "gm_inv m \<Longrightarrow> gm_inv (gm_del k m)"
    by (simp add: gm_inv_def gm_del_def distinct_delete)
qed

lemmas gm_simps = gm.get_put gm.get_empty gm.inv_empty gm.inv_put

lemma gm_in_keys: "k \<in> set (gm_keys m) \<longleftrightarrow> gm_get m k \<noteq> None"
  by (simp add: gm.keys_get)

lemma gm_get_in_set: "gm_get m k = Some v \<Longrightarrow> (k, v) \<in> set m"
  by (simp add: gm_get_def map_of_SomeD)

lemma gm_get_iff: "gm_inv m \<Longrightarrow> gm_get m k = Some v \<longleftrightarrow> (k, v) \<in> set m"
  by (simp add: gm_inv_def gm_get_def map_of_eq_Some_iff)

lemma set_gm_put:
  assumes "gm_inv m"
  shows "set (gm_put k v m) = insert (k, v) {p \<in> set m. fst p \<noteq> k}"
proof -
  have "(j, w) \<in> set (gm_put k v m) \<longleftrightarrow> (j, w) \<in> insert (k, v) {p \<in> set m. fst p \<noteq> k}" for j w
    using gm_get_iff [OF gm.inv_put [OF assms], of k v j w] gm_get_iff [OF assms, of j w]
    by (auto simp: gm.get_put split: if_splits)
  then show ?thesis by auto
qed

lemma gm_put_not_Nil [simp]: "gm_put k v m \<noteq> []"
  by (simp add: gm_put_def)

section \<open>Ranging over a map\<close>

type_synonym key_order = "string list \<Rightarrow> string list"

definition is_order :: "key_order \<Rightarrow> bool" where
  "is_order ord \<longleftrightarrow> (\<forall>ks. mset (ord ks) = mset ks)"

definition range_map :: "key_order \<Rightarrow> (string, 'v) gomap \<Rightarrow> (string \<times> 'v) list" where
  "range_map ord m = map (\<lambda>k. (k, the (gm_get m k))) (ord (gm_keys m))"

lemma is_order_id [simp]: "is_order (\<lambda>ks. ks)"
  by (simp add: is_order_def)

lemma is_order_rev [simp]: "is_order rev"
  by (simp add: is_order_def)

lemma is_order_mset: "is_order ord \<Longrightarrow> mset (ord ks) = mset ks"
  by (simp add: is_order_def)

lemma mset_range_map:
  assumes "is_order ord" and "gm_inv m"
  shows "mset (range_map ord m) = mset m"
proof -
  have "mset (range_map ord m) = image_mset (\<lambda>k. (k, the (gm_get m k))) (mset (gm_keys m))"
    using assms(1) by (simp add: range_map_def is_order_def)
  also have "\<dots> = mset (map (\<lambda>p. (fst p, the (gm_get m (fst p)))) m)"
    by (simp add: gm_keys_def multiset.map_comp comp_def)
  also have "map (\<lambda>p. (fst p, the (gm_get m (fst p)))) m = m"
    using assms(2) by (intro map_idI) (auto simp: gm_inv_def gm_get_def)
  finally show ?thesis .
qed

lemma set_range_map: "is_order ord \<Longrightarrow> gm_inv m \<Longrightarrow> set (range_map ord m) = set m"
  using mset_range_map mset_eq_setD by blast

lemma length_range_map: "is_order ord \<Longrightarrow> gm_inv m \<Longrightarrow> length (range_map ord m) = length m"
  using mset_range_map mset_eq_length by blast

lemma distinct_range_map:
  assumes "is_order ord" and "gm_inv m"
  shows "distinct (map fst (range_map ord m))"
proof -
  have "mset (map fst (range_map ord m)) = mset (map fst m)"
    using mset_range_map [OF assms] by (metis mset_map)
  then show ?thesis
    using assms(2) by (metis gm_inv_def mset_eq_imp_distinct_iff)
qed

lemma range_map_id [simp]: "gm_inv m \<Longrightarrow> range_map (\<lambda>ks. ks) m = m"
  by (auto simp: range_map_def gm_keys_def gm_inv_def gm_get_def intro!: map_idI)

section \<open>Step relations that come to an end\<close>

text \<open>A step relation whose steps make a size smaller: runs are no longer than the size of their first state, and from
  every state there is a run to one without a step.\<close>

locale shrinking =
  fixes step :: "'s \<Rightarrow> 's \<Rightarrow> bool" and size :: "'s \<Rightarrow> nat"
  assumes shrinks: "step s s' \<Longrightarrow> size s' < size s"
begin

lemma run_bounded: "(step ^^ n) s s' \<Longrightarrow> n + size s' \<le> size s"
proof (induction n arbitrary: s')
  case (Suc n)
  then obtain s1 where "(step ^^ n) s s1" "step s1 s'"
    by (auto elim: relpowp_Suc_E)
  then show ?case
    using Suc.IH [of s1] shrinks [of s1 s'] by simp
qed simp

lemma run_ends: "\<exists>n s'. (step ^^ n) s s' \<and> (\<nexists>s''. step s' s'')"
proof (induction "size s" arbitrary: s rule: less_induct)
  case less
  show ?case
  proof (cases "\<exists>s1. step s s1")
    case True
    then obtain s1 where s1: "step s s1" by blast
    then obtain n s' where "(step ^^ n) s1 s'" "\<nexists>s''. step s' s''"
      using less [OF shrinks [OF s1]] by blast
    then show ?thesis
      using relpowp_Suc_I2 [of step s s1 n s'] s1 by blast
  next
    case False
    then show ?thesis
      by (intro exI [of _ 0] exI [of _ s]) simp
  qed
qed

end

end
