(* ===== verification/Go_Strings.thy ===== *)
theory Go_Strings
  imports Zs_Prelude "HOL-Library.Sublist" "HOL-Library.Code_Target_Nat"
begin

text \<open>
  The parts of Go's standard library on strings that the program uses. A Go string is a byte
  sequence; here it is a \<open>string\<close>, whose characters are bytes.
  \<^item> UTF-8 as \<open>unicode/utf8\<close> decodes and encodes it, invalid bytes being U+FFFD of width 1;
  \<^item> \<open>strings.ToLower\<close> with its ASCII path and its \<open>strings.Map\<close> path. The Unicode case table
    above U+007F is data of the Go release, not of the program: it is the argument \<open>lc\<close>;
  \<^item> \<open>strings.TrimSpace\<close> over the UTF-8 encodings of the code points \<open>unicode.IsSpace\<close> accepts,
    \<open>TrimSuffix\<close>, \<open>HasPrefix\<close>, \<open>Contains\<close>, \<open>ReplaceAll\<close> for one-byte strings;
  \<^item> decimal and hexadecimal formatting (\<open>%d\<close>, \<open>%x\<close>) and \<open>strconv.Quote\<close> (\<open>%q\<close>).
\<close>

text \<open>The two Unicode tables the program's behaviour depends on, as one argument.\<close>

record unicode =
  uc_lower :: "nat \<Rightarrow> nat"
  uc_print :: "nat \<Rightarrow> bool"

text \<open>A concrete pair of tables, used to evaluate examples: no case mapping and nothing printable
  above U+007F.\<close>

definition ascii_tables :: unicode where
  "ascii_tables = \<lparr>uc_lower = (\<lambda>r. r), uc_print = (\<lambda>_. False)\<rparr>"

section \<open>UTF-8\<close>

definition ord_byte :: "char \<Rightarrow> nat" where
  "ord_byte c = of_char c"

definition chr_byte :: "nat \<Rightarrow> char" where
  "chr_byte n = char_of n"

lemma ord_byte_less [simp]: "ord_byte c < 256"
  by (simp add: ord_byte_def)

lemma ord_chr_byte: "n < 256 \<Longrightarrow> ord_byte (chr_byte n) = n"
  by (simp add: ord_byte_def chr_byte_def of_char_of)

lemma chr_ord_byte [simp]: "chr_byte (ord_byte c) = c"
  by (simp add: ord_byte_def chr_byte_def)

lemma ord_byte_inject [simp]: "ord_byte c = ord_byte d \<longleftrightarrow> c = d"
  by (metis chr_ord_byte)

definition is_ascii :: "string \<Rightarrow> bool" where
  "is_ascii s \<longleftrightarrow> (\<forall>c \<in> set s. ord_byte c < 128)"

abbreviation "RuneError \<equiv> (65533 :: nat)"

definition between :: "nat \<Rightarrow> nat \<Rightarrow> nat \<Rightarrow> bool" where
  "between lo hi x \<longleftrightarrow> lo \<le> x \<and> x \<le> hi"

definition is_cont :: "nat \<Rightarrow> bool" where
  "is_cont b \<longleftrightarrow> between 128 191 b"

text \<open>The range of the second byte of a three- or four-byte sequence, by its first byte.\<close>

definition second_ok :: "nat \<Rightarrow> nat \<Rightarrow> bool" where
  "second_ok b0 b1 \<longleftrightarrow>
     (if b0 = 224 then between 160 191 b1
      else if b0 = 237 then between 128 159 b1
      else if b0 = 240 then between 144 191 b1
      else if b0 = 244 then between 128 143 b1
      else is_cont b1)"

text \<open>\<open>utf8.DecodeRuneInString\<close>: the first code point and its width in bytes.\<close>

fun decode_rune :: "nat list \<Rightarrow> nat \<times> nat" where
  "decode_rune [] = (RuneError, 0)"
| "decode_rune (b0 # bs) =
     (if b0 < 128 then (b0, 1)
      else if between 194 223 b0 then
        (case bs of
           b1 # _ \<Rightarrow> if is_cont b1 then ((b0 - 192) * 64 + (b1 - 128), 2) else (RuneError, 1)
         | _ \<Rightarrow> (RuneError, 1))
      else if between 224 239 b0 then
        (case bs of
           b1 # b2 # _ \<Rightarrow>
             if second_ok b0 b1 \<and> is_cont b2
             then ((b0 - 224) * 4096 + (b1 - 128) * 64 + (b2 - 128), 3) else (RuneError, 1)
         | _ \<Rightarrow> (RuneError, 1))
      else if between 240 244 b0 then
        (case bs of
           b1 # b2 # b3 # _ \<Rightarrow>
             if second_ok b0 b1 \<and> is_cont b2 \<and> is_cont b3
             then ((b0 - 240) * 262144 + (b1 - 128) * 4096 + (b2 - 128) * 64 + (b3 - 128), 4)
             else (RuneError, 1)
         | _ \<Rightarrow> (RuneError, 1))
      else (RuneError, 1))"

text \<open>\<open>utf8.AppendRune\<close>: surrogates and values above U+10FFFF become U+FFFD.\<close>

definition encode_rune :: "nat \<Rightarrow> nat list" where
  "encode_rune r0 =
     (let r = (if between 55296 57343 r0 \<or> 1114111 < r0 then RuneError else r0)
      in if r < 128 then [r]
         else if r < 2048 then [192 + r div 64, 128 + r mod 64]
         else if r < 65536 then [224 + r div 4096, 128 + r div 64 mod 64, 128 + r mod 64]
         else [240 + r div 262144, 128 + r div 4096 mod 64, 128 + r div 64 mod 64, 128 + r mod 64])"

lemma decode_rune_width: "bs \<noteq> [] \<Longrightarrow> 0 < snd (decode_rune bs)"
  by (cases bs) (auto split: list.splits)

text \<open>The code points of a byte string with their widths, in order.\<close>

function runes :: "nat list \<Rightarrow> (nat \<times> nat) list" where
  "runes bs = (if bs = [] then [] else decode_rune bs # runes (drop (snd (decode_rune bs)) bs))"
  by pat_completeness auto
termination
  by (relation "measure length") (auto intro!: diff_less decode_rune_width)

declare runes.simps [simp del]

lemma runes_Nil [simp]: "runes [] = []"
  by (simp add: runes.simps)

lemma runes_ascii:
  "\<forall>b \<in> set bs. b < 128 \<Longrightarrow> runes bs = map (\<lambda>b. (b, 1)) bs"
  by (induction bs) (simp_all add: runes.simps [of "_ # _"])

section \<open>Case mapping\<close>

definition ascii_lower :: "nat \<Rightarrow> nat" where
  "ascii_lower b = (if 65 \<le> b \<and> b \<le> 90 then b + 32 else b)"

text \<open>\<open>unicode.ToLower\<close>: the ASCII letters directly, every other code point by the table.\<close>

definition unicode_ToLower :: "(nat \<Rightarrow> nat) \<Rightarrow> nat \<Rightarrow> nat" where
  "unicode_ToLower lc r = (if r < 128 then ascii_lower r else lc r)"

text \<open>\<open>strings.Map\<close> for a mapping that drops no code point.\<close>

definition strings_Map :: "(nat \<Rightarrow> nat) \<Rightarrow> string \<Rightarrow> string" where
  "strings_Map f s = map chr_byte (concat (map (\<lambda>(r, w). encode_rune (f r)) (runes (map ord_byte s))))"

definition ToLower :: "(nat \<Rightarrow> nat) \<Rightarrow> string \<Rightarrow> string" where
  "ToLower lc s =
     (if is_ascii s then map (\<lambda>c. chr_byte (ascii_lower (ord_byte c))) s
      else strings_Map (unicode_ToLower lc) s)"

lemma ascii_lower_less: "b < 128 \<Longrightarrow> ascii_lower b < 128"
  by (simp add: ascii_lower_def)

lemma ascii_lower_idem [simp]: "ascii_lower (ascii_lower b) = ascii_lower b"
  by (simp add: ascii_lower_def)

text \<open>The ASCII fast path computes what the general path would.\<close>

lemma ToLower_eq_Map: "ToLower lc s = strings_Map (unicode_ToLower lc) s"
proof (cases "is_ascii s")
  case True
  have "encode_rune (unicode_ToLower lc (ord_byte c)) = [ascii_lower (ord_byte c)]"
    if "c \<in> set s" for c
    using True that ascii_lower_less [of "ord_byte c"]
    by (auto simp: is_ascii_def unicode_ToLower_def encode_rune_def Let_def between_def)
  then have "map (\<lambda>c. encode_rune (unicode_ToLower lc (ord_byte c))) s
      = map (\<lambda>c. [ascii_lower (ord_byte c)]) s"
    by simp
  moreover have "runes (map ord_byte s) = map (\<lambda>b. (b, 1)) (map ord_byte s)"
    using True by (intro runes_ascii) (simp add: is_ascii_def)
  ultimately show ?thesis
    using True by (simp add: ToLower_def strings_Map_def comp_def concat_map_singleton
        cong: map_cong)
next
  case False
  then show ?thesis by (simp add: ToLower_def)
qed

lemma is_ascii_simps [simp]:
  "is_ascii []"
  "is_ascii (c # s) \<longleftrightarrow> ord_byte c < 128 \<and> is_ascii s"
  "is_ascii (s @ t) \<longleftrightarrow> is_ascii s \<and> is_ascii t"
  by (auto simp: is_ascii_def)

lemma ToLower_Nil [simp]: "ToLower lc [] = []"
  by (simp add: ToLower_def)

lemma ToLower_ascii: "is_ascii s \<Longrightarrow> ToLower lc s = map (\<lambda>c. chr_byte (ascii_lower (ord_byte c))) s"
  by (simp add: ToLower_def)

lemma runes_ascii_Cons: "b < 128 \<Longrightarrow> runes (b # bs) = (b, 1) # runes bs"
  by (subst runes.simps) simp

lemma ToLower_append_ascii:
  assumes "is_ascii p"
  shows "ToLower lc (p @ s) = ToLower lc p @ ToLower lc s"
proof -
  have "runes (map ord_byte p @ bs) = map (\<lambda>c. (ord_byte c, 1)) p @ runes bs" for bs
    using assms by (induction p) (simp_all add: runes_ascii_Cons is_ascii_def)
  from this [of "map ord_byte s"] this [of "[]"] show ?thesis
    by (simp add: ToLower_eq_Map strings_Map_def comp_def)
qed

lemma is_ascii_ToLower: "is_ascii s \<Longrightarrow> is_ascii (ToLower lc s)"
  by (auto simp: ToLower_def is_ascii_def ord_chr_byte ascii_lower_def)

definition no_upper :: "string \<Rightarrow> bool" where
  "no_upper s \<longleftrightarrow> (\<forall>c \<in> set s. ord_byte c < 128 \<and> \<not> (65 \<le> ord_byte c \<and> ord_byte c \<le> 90))"

lemma no_upper_ascii: "no_upper s \<Longrightarrow> is_ascii s"
  by (auto simp: no_upper_def is_ascii_def)

lemma ToLower_no_upper: "no_upper s \<Longrightarrow> ToLower lc s = s"
  by (auto simp: ToLower_ascii no_upper_ascii no_upper_def ascii_lower_def intro!: map_idI)

lemma no_upper_ToLower: "is_ascii s \<Longrightarrow> no_upper (ToLower lc s)"
  by (auto simp: ToLower_ascii is_ascii_def no_upper_def ord_chr_byte ascii_lower_def)

lemma ToLower_idem_ascii: "is_ascii s \<Longrightarrow> ToLower lc (ToLower lc s) = ToLower lc s"
  by (simp add: ToLower_no_upper no_upper_ToLower)

lemma no_upper_simps [simp]:
  "no_upper []"
  "no_upper (c # s) \<longleftrightarrow> ord_byte c < 128 \<and> \<not> (65 \<le> ord_byte c \<and> ord_byte c \<le> 90) \<and> no_upper s"
  "no_upper (s @ t) \<longleftrightarrow> no_upper s \<and> no_upper t"
  by (auto simp: no_upper_def)

section \<open>Trimming\<close>

text \<open>
  The code points for which \<open>unicode.IsSpace\<close> holds. A leading (trailing) code point of a string
  is one of them exactly if the string starts (ends) with its encoding: a lead byte ends the
  backward scan of \<open>utf8.DecodeLastRune\<close> and fixes the width.
\<close>

definition space_runes :: "nat list" where
  "space_runes = [9, 10, 11, 12, 13, 32, 133, 160, 5760, 8192, 8193, 8194, 8195, 8196, 8197, 8198, 8199,
     8200, 8201, 8202, 8232, 8233, 8239, 8287, 12288]"

definition space_bytes :: "nat list list" where
  "space_bytes = [[9], [10], [11], [12], [13], [32], [194, 133], [194, 160], [225, 154, 128], [226, 128,
     128], [226, 128, 129], [226, 128, 130], [226, 128, 131], [226, 128, 132], [226, 128, 133],
     [226, 128, 134], [226, 128, 135], [226, 128, 136], [226, 128, 137], [226, 128, 138], [226,
     128, 168], [226, 128, 169], [226, 128, 175], [226, 129, 159], [227, 128, 128]]"

lemma space_bytes_eq: "space_bytes = map encode_rune space_runes"
  by (simp add: space_bytes_def space_runes_def encode_rune_def between_def)

definition space_encodings :: "string list" where
  "space_encodings = map (map chr_byte) space_bytes"

function strip_any :: "string list \<Rightarrow> string \<Rightarrow> string" where
  "strip_any ps s =
     (case find (\<lambda>p. p \<noteq> [] \<and> prefix p s) ps of
        None \<Rightarrow> s
      | Some p \<Rightarrow> strip_any ps (drop (length p) s))"
  by pat_completeness auto
termination
  by (relation "measure (\<lambda>(ps, s). length s)") (auto simp: find_Some_iff prefix_def)

declare strip_any.simps [simp del]

definition TrimSpace :: "string \<Rightarrow> string" where
  "TrimSpace s = rev (strip_any (map rev space_encodings) (rev (strip_any space_encodings s)))"

definition TrimSuffix :: "string \<Rightarrow> string \<Rightarrow> string" where
  "TrimSuffix s suf = (if suffix suf s then take (length s - length suf) s else s)"

definition HasPrefix :: "string \<Rightarrow> string \<Rightarrow> bool" where
  "HasPrefix s p \<longleftrightarrow> prefix p s"

fun Contains :: "string \<Rightarrow> string \<Rightarrow> bool" where
  "Contains [] sub = (sub = [])"
| "Contains (c # s) sub = (prefix sub (c # s) \<or> Contains s sub)"

text \<open>\<open>strings.ReplaceAll\<close> with one-byte arguments.\<close>

definition ReplaceAll1 :: "char \<Rightarrow> char \<Rightarrow> string \<Rightarrow> string" where
  "ReplaceAll1 a b s = map (\<lambda>c. if c = a then b else c) s"

lemma Contains_iff: "Contains s sub \<longleftrightarrow> (\<exists>u v. s = u @ sub @ v)"
proof (induction s)
  case Nil
  then show ?case by simp
next
  case (Cons c s)
  have "(\<exists>u v. c # s = u @ sub @ v) \<longleftrightarrow> prefix sub (c # s) \<or> (\<exists>u v. s = u @ sub @ v)"
    by (auto simp: prefix_def Cons_eq_append_conv)
  then show ?case
    using Cons.IH by simp
qed

lemma ContainsI: "Contains (u @ sub @ v) sub"
  using Contains_iff by blast

lemma Contains_append: "Contains s sub \<Longrightarrow> Contains (t @ s @ u) sub"
  unfolding Contains_iff by (metis append.assoc)

lemma TrimSuffix_append: "TrimSuffix (s @ suf) suf = s"
  by (simp add: TrimSuffix_def suffix_def)

lemma TrimSuffix_id: "\<not> suffix suf s \<Longrightarrow> TrimSuffix s suf = s"
  by (simp add: TrimSuffix_def)

lemma prefix_TrimSuffix: "prefix (TrimSuffix s suf) s"
  by (simp add: TrimSuffix_def take_is_prefix)

lemma strip_any_stop: "\<lbrakk>\<And>p. p \<in> set ps \<Longrightarrow> p \<noteq> [] \<Longrightarrow> \<not> prefix p s\<rbrakk> \<Longrightarrow> strip_any ps s = s"
  by (subst strip_any.simps) (auto simp: find_None_iff split: option.splits dest!: find_Some_iff [THEN iffD1] nth_mem)

lemma strip_any_done: "p \<in> set ps \<Longrightarrow> p \<noteq> [] \<Longrightarrow> \<not> prefix p (strip_any ps s)"
proof (induction ps s rule: strip_any.induct)
  case (1 ps s)
  show ?case
  proof (cases "find (\<lambda>p. p \<noteq> [] \<and> prefix p s) ps")
    case None
    then show ?thesis
      using 1 by (subst strip_any.simps) (auto simp: find_None_iff split: option.splits)
  next
    case (Some q)
    then show ?thesis
      using 1 by (subst strip_any.simps) auto
  qed
qed

lemma suffix_strip_any: "suffix (strip_any ps s) s"
proof (induction ps s rule: strip_any.induct)
  case (1 ps s)
  then show ?case
    by (subst strip_any.simps)
      (auto split: option.split intro: suffix_order.trans suffix_drop)
qed

lemma prefix_rev_strip: "prefix (rev (strip_any ps (rev s))) s"
  using suffix_strip_any [of ps "rev s"] by (simp add: suffix_to_prefix)

lemma TrimSpace_id:
  assumes "\<And>p. p \<in> set space_encodings \<Longrightarrow> \<not> prefix p s \<and> \<not> suffix p s"
  shows "TrimSpace s = s"
proof -
  have "strip_any space_encodings s = s"
    using assms by (intro strip_any_stop) auto
  moreover have "strip_any (map rev space_encodings) (rev s) = rev s"
    using assms by (intro strip_any_stop) (auto simp: suffix_to_prefix)
  ultimately show ?thesis by (simp add: TrimSpace_def)
qed

lemma TrimSpace_ends:
  assumes "p \<in> set space_encodings" and "p \<noteq> []"
  shows "\<not> prefix p (TrimSpace s)" and "\<not> suffix p (TrimSpace s)"
proof -
  have "prefix (TrimSpace s) (strip_any space_encodings s)"
    unfolding TrimSpace_def by (rule prefix_rev_strip)
  then show "\<not> prefix p (TrimSpace s)"
    using strip_any_done [OF assms, of s] prefix_order.trans by blast
  show "\<not> suffix p (TrimSpace s)"
    using assms strip_any_done [of "rev p" "map rev space_encodings"
        "rev (strip_any space_encodings s)"]
    by (simp add: TrimSpace_def suffix_to_prefix)
qed

definition graphic :: "char \<Rightarrow> bool" where
  "graphic c \<longleftrightarrow> 33 \<le> ord_byte c \<and> ord_byte c \<le> 126"

lemma space_encodings_nongraphic:
  "list_all (\<lambda>p. p \<noteq> [] \<and> \<not> graphic (hd p) \<and> \<not> graphic (last p)) space_encodings"
  by (simp add: space_encodings_def space_bytes_def graphic_def ord_chr_byte)

lemma space_encoding_not_Nil: "p \<in> set space_encodings \<Longrightarrow> p \<noteq> []"
  using space_encodings_nongraphic by (auto simp: list_all_iff)

lemma TrimSpace_idem [simp]: "TrimSpace (TrimSpace s) = TrimSpace s"
  using TrimSpace_ends space_encoding_not_Nil by (intro TrimSpace_id) blast

lemma TrimSpace_graphic_ends:
  assumes "s \<noteq> []" and "graphic (hd s)" and "graphic (last s)"
  shows "TrimSpace s = s"
proof (rule TrimSpace_id, rule conjI)
  fix p assume "p \<in> set space_encodings"
  then have p: "p \<noteq> []" "\<not> graphic (hd p)" "\<not> graphic (last p)"
    using space_encodings_nongraphic by (auto simp: list_all_iff)
  show "\<not> prefix p s"
    using p assms by (auto simp: prefix_def)
  show "\<not> suffix p s"
    using p assms by (auto simp: suffix_def)
qed

lemma TrimSpace_Nil [simp]: "TrimSpace [] = []"
  by (rule TrimSpace_id) (auto dest: space_encoding_not_Nil)

lemma TrimSpace_graphic: "\<forall>c \<in> set s. graphic c \<Longrightarrow> TrimSpace s = s"
  by (cases "s = []") (auto intro!: TrimSpace_graphic_ends)

section \<open>Formatting\<close>

definition digit_char :: "nat \<Rightarrow> char" where
  "digit_char d = chr_byte (48 + d)"

fun dec :: "nat \<Rightarrow> string" where
  "dec n = (if n < 10 then [digit_char n] else dec (n div 10) @ [digit_char (n mod 10)])"

declare dec.simps [simp del]

text \<open>The verb \<open>%d\<close>.\<close>

definition fmt_d :: "int \<Rightarrow> string" where
  "fmt_d i = (if i < 0 then CHR ''-'' # dec (nat (- i)) else dec (nat i))"

definition is_digit :: "char \<Rightarrow> bool" where
  "is_digit c \<longleftrightarrow> 48 \<le> ord_byte c \<and> ord_byte c \<le> 57"

definition digit_val :: "char \<Rightarrow> nat" where
  "digit_val c = ord_byte c - 48"

text \<open>\<open>time.Duration.String\<close>: hours, minutes and seconds with a fraction without trailing zeros; below a
  second the unit is milli-, micro- or nanoseconds (the micro sign is the bytes C2 B5).\<close>

definition fmt_frac :: "nat \<Rightarrow> nat \<Rightarrow> string" where
  "fmt_frac v prec =
     (let ds = rev (dropWhile (\<lambda>c. c = CHR ''0'') (rev (replicate (prec - length (dec v)) CHR ''0'' @ dec v)))
      in if ds = [] then [] else ''.'' @ ds)"

definition Duration_String :: "int \<Rightarrow> string" where
  "Duration_String d =
     (let u = nat \<bar>d\<bar>; s = u div 1000000000;
          body = (if u = 0 then ''0s''
            else if u < 1000 then dec u @ ''ns''
            else if u < 1000000 then dec (u div 1000) @ fmt_frac (u mod 1000) 3 @ [CHR 0xC2, CHR 0xB5] @ ''s''
            else if u < 1000000000 then dec (u div 1000000) @ fmt_frac (u mod 1000000) 6 @ ''ms''
            else (if s div 3600 > 0 then dec (s div 3600) @ ''h'' else [])
              @ (if s div 60 > 0 then dec (s div 60 mod 60) @ ''m'' else [])
              @ dec (s mod 60) @ fmt_frac (u mod 1000000000) 9 @ ''s'')
      in if d < 0 then ''-'' @ body else body)"

definition of_dec :: "string \<Rightarrow> nat" where
  "of_dec s = foldl (\<lambda>n c. 10 * n + digit_val c) 0 s"

lemma digit_char_props:
  "d < 10 \<Longrightarrow> is_digit (digit_char d) \<and> digit_val (digit_char d) = d"
  by (simp add: digit_char_def is_digit_def digit_val_def ord_chr_byte)

lemma dec_not_Nil [simp]: "dec n \<noteq> []"
  by (subst dec.simps) simp

lemma dec_digits: "\<forall>c \<in> set (dec n). is_digit c"
proof (induction n rule: dec.induct)
  case (1 n)
  then show ?case
    by (subst dec.simps) (auto simp: digit_char_props)
qed

lemma of_dec_append: "of_dec (s @ [c]) = 10 * of_dec s + digit_val c"
  by (simp add: of_dec_def)

lemma of_dec_dec [simp]: "of_dec (dec n) = n"
proof (induction n rule: dec.induct)
  case (1 n)
  show ?case
  proof (cases "n < 10")
    case True
    then show ?thesis
      by (subst dec.simps) (simp add: of_dec_def digit_char_props)
  next
    case False
    then have "of_dec (dec n) = 10 * (n div 10) + n mod 10"
      using 1 by (subst dec.simps) (simp add: of_dec_append digit_char_props)
    then show ?thesis by simp
  qed
qed

lemma dec_inject [simp]: "dec m = dec n \<longleftrightarrow> m = n"
  by (metis of_dec_dec)

lemma digit_graphic: "is_digit c \<Longrightarrow> graphic c"
  by (simp add: is_digit_def graphic_def)

lemma dec_hd: "1 \<le> n \<Longrightarrow> hd (dec n) \<noteq> digit_char 0"
proof (induction n rule: dec.induct)
  case (1 n)
  show ?case
  proof (cases "n < 10")
    case True
    then show ?thesis
      using 1 digit_char_props [of n] digit_char_props [of 0]
      by (subst dec.simps) auto
  next
    case False
    then show ?thesis
      using 1 by (subst dec.simps) auto
  qed
qed

lemma fmt_d_nat [simp]: "fmt_d (int n) = dec n"
  by (simp add: fmt_d_def)

lemma fmt_d_inject [simp]: "fmt_d i = fmt_d j \<longleftrightarrow> i = j"
proof -
  have "dec n \<noteq> CHR ''-'' # s" for n s
    using dec_digits [of n] by (auto simp: is_digit_def ord_byte_def)
  then show ?thesis
    by (auto simp: fmt_d_def dest: sym)
qed

definition hex_char :: "nat \<Rightarrow> char" where
  "hex_char d = (if d < 10 then chr_byte (48 + d) else chr_byte (87 + d))"

text \<open>Lower-case hexadecimal, padded with zeros to the given width.\<close>

fun hex_pad :: "nat \<Rightarrow> nat \<Rightarrow> string" where
  "hex_pad 0 n = []"
| "hex_pad (Suc w) n = hex_pad w (n div 16) @ [hex_char (n mod 16)]"

fun hex :: "nat \<Rightarrow> string" where
  "hex n = (if n < 16 then [hex_char n] else hex (n div 16) @ [hex_char (n mod 16)])"

declare hex.simps [simp del]

text \<open>
  \<open>strconv.Quote\<close> (the verb \<open>%q\<close>). Which code points above U+007F are printable is again a table
  of the Go release, the argument \<open>pr\<close>.
\<close>

definition quote_rune :: "(nat \<Rightarrow> bool) \<Rightarrow> nat \<Rightarrow> string" where
  "quote_rune pr r =
     (if r = 34 \<or> r = 92 then [chr_byte 92, chr_byte r]
      else if (if r < 128 then between 32 126 r else pr r) then map chr_byte (encode_rune r)
      else if r = 7 then chr_byte 92 # ''a''
      else if r = 8 then chr_byte 92 # ''b''
      else if r = 12 then chr_byte 92 # ''f''
      else if r = 10 then chr_byte 92 # ''n''
      else if r = 13 then chr_byte 92 # ''r''
      else if r = 9 then chr_byte 92 # ''t''
      else if r = 11 then chr_byte 92 # ''v''
      else if r < 32 \<or> r = 127 then chr_byte 92 # ''x'' @ hex_pad 2 r
      else if r < 65536 then chr_byte 92 # ''u'' @ hex_pad 4 r
      else chr_byte 92 # ''U'' @ hex_pad 8 r)"

function quote_body :: "(nat \<Rightarrow> bool) \<Rightarrow> nat list \<Rightarrow> string" where
  "quote_body pr bs =
     (if bs = [] then []
      else let (r, w) = decode_rune bs
           in (if w = 1 \<and> r = RuneError then chr_byte 92 # ''x'' @ hex_pad 2 (hd bs)
               else quote_rune pr r) @ quote_body pr (drop w bs))"
  by pat_completeness auto
termination
proof (relation "measure (\<lambda>(pr, bs). length bs)", simp)
  fix pr :: "nat \<Rightarrow> bool" and bs r w x y
  assume "bs \<noteq> []" "x = decode_rune bs" "(r, y) = x"
  then have "0 < y" "0 < length bs"
    using decode_rune_width [of bs] by (auto dest: sym)
  then show "((pr, drop y bs), pr, bs) \<in> measure (\<lambda>(pr, bs). length bs)"
    by simp
qed

declare quote_body.simps [simp del]

definition Quote :: "(nat \<Rightarrow> bool) \<Rightarrow> string \<Rightarrow> string" where
  "Quote pr s = [chr_byte 34] @ quote_body pr (map ord_byte s) @ [chr_byte 34]"

text \<open>Printable ASCII text without quotes and backslashes is copied between the quotes.\<close>

definition plain_char :: "char \<Rightarrow> bool" where
  "plain_char c \<longleftrightarrow> between 32 126 (ord_byte c) \<and> ord_byte c \<noteq> 34 \<and> ord_byte c \<noteq> 92"

lemma quote_body_plain:
  "\<forall>c \<in> set s. plain_char c \<Longrightarrow> quote_body pr (map ord_byte s) = s"
proof (induction s)
  case Nil
  then show ?case by (simp add: quote_body.simps)
next
  case (Cons c s)
  then have "decode_rune (map ord_byte (c # s)) = (ord_byte c, 1)"
    and "quote_rune pr (ord_byte c) = [c]" and "ord_byte c \<noteq> RuneError"
    by (auto simp: plain_char_def between_def quote_rune_def encode_rune_def)
  then show ?case
    using Cons by (subst quote_body.simps) simp
qed

lemma Quote_plain:
  "\<forall>c \<in> set s. plain_char c \<Longrightarrow> Quote pr s = [chr_byte 34] @ s @ [chr_byte 34]"
  by (simp add: Quote_def quote_body_plain)

end
