(* ===== verification/Go_Net.thy ===== *)
theory Go_Net
  imports Go_Strings "HOL-Library.Word"
begin

text \<open>
  The parts of Go's \<open>net\<close> and \<open>net/netip\<close> packages that the program computes with: IP addresses as
  byte slices (4 or 16 bytes, the empty slice being \<open>nil\<close>), their textual form, parsing, and
  \<open>net.JoinHostPort\<close>. Name resolution and sockets are not here: they are arguments of the
  components that use them.
\<close>

type_synonym byte = "8 word"

record TCPAddr =
  tcp_IP :: "byte list"
  tcp_Port :: int

section \<open>Splitting and joining\<close>

text \<open>\<open>strings.Split\<close> and \<open>strings.Join\<close> with a one-byte separator.\<close>

fun split_on :: "char \<Rightarrow> string \<Rightarrow> string list" where
  "split_on c [] = [[]]"
| "split_on c (x # xs) =
     (if x = c then [] # split_on c xs
      else case split_on c xs of p # ps \<Rightarrow> (x # p) # ps | [] \<Rightarrow> [[x]])"

fun join_with :: "char \<Rightarrow> string list \<Rightarrow> string" where
  "join_with c [] = []"
| "join_with c [p] = p"
| "join_with c (p # q # ps) = p @ c # join_with c (q # ps)"

lemma split_on_not_Nil [simp]: "split_on c s \<noteq> []"
  by (induction s) (auto split: list.split)

lemma split_on_none: "c \<notin> set s \<Longrightarrow> split_on c s = [s]"
  by (induction s) auto

lemma split_on_append: "c \<notin> set p \<Longrightarrow> split_on c (p @ c # s) = p # split_on c s"
  by (induction p) auto

lemma split_join:
  "ps \<noteq> [] \<Longrightarrow> \<forall>p \<in> set ps. c \<notin> set p \<Longrightarrow> split_on c (join_with c ps) = ps"
  by (induction c ps rule: join_with.induct) (auto simp: split_on_none split_on_append)

section \<open>Textual form\<close>

definition v4InV6Prefix :: "byte list" where
  "v4InV6Prefix = replicate 10 0 @ [255, 255]"

definition To4 :: "byte list \<Rightarrow> byte list option" where
  "To4 ip =
     (if length ip = 4 then Some ip
      else if length ip = 16 \<and> take 12 ip = v4InV6Prefix then Some (drop 12 ip)
      else None)"

definition ip4_string :: "byte list \<Rightarrow> string" where
  "ip4_string q = join_with CHR ''.'' (map (\<lambda>b. dec (unat b)) q)"

fun groups16 :: "byte list \<Rightarrow> nat list" where
  "groups16 (a # b # bs) = (unat a * 256 + unat b) # groups16 bs"
| "groups16 _ = []"

definition zero_run :: "nat list \<Rightarrow> nat \<Rightarrow> nat" where
  "zero_run gs i = length (takeWhile (\<lambda>g. g = 0) (drop i gs))"

text \<open>The first longest run of at least two zero groups, as (start, end).\<close>

definition best_run :: "nat list \<Rightarrow> (nat \<times> nat) option" where
  "best_run gs = fold (\<lambda>i best.
     let l = zero_run gs i
     in if 2 \<le> l \<and> l > (case best of None \<Rightarrow> 0 | Some (s, e) \<Rightarrow> e - s) then Some (i, i + l) else best)
     [0..<length gs] None"

definition ip6_string :: "byte list \<Rightarrow> string" where
  "ip6_string ip =
     (let gs = groups16 ip
      in case best_run gs of
           None \<Rightarrow> join_with CHR '':'' (map hex gs)
         | Some (s, e) \<Rightarrow> join_with CHR '':'' (map hex (take s gs)) @ ''::''
             @ join_with CHR '':'' (map hex (drop e gs)))"

definition IP_String :: "byte list \<Rightarrow> string" where
  "IP_String ip =
     (if ip = [] then ''<nil>''
      else if length ip \<noteq> 4 \<and> length ip \<noteq> 16 then ''?'' @ concat (map (\<lambda>b. hex_pad 2 (unat b)) ip)
      else case To4 ip of Some q \<Rightarrow> ip4_string q | None \<Rightarrow> ip6_string ip)"

definition IsUnspecified :: "byte list \<Rightarrow> bool" where
  "IsUnspecified ip \<longleftrightarrow>
     ip = replicate 4 0 \<or> ip = v4InV6Prefix @ replicate 4 0 \<or> ip = replicate 16 0"

definition JoinHostPort :: "string \<Rightarrow> string \<Rightarrow> string" where
  "JoinHostPort host port =
     (if CHR '':'' \<in> set host then ''['' @ host @ '']:'' @ port else host @ '':'' @ port)"

section \<open>Parsing\<close>

definition octet_ok :: "string \<Rightarrow> bool" where
  "octet_ok p \<longleftrightarrow> p \<noteq> [] \<and> (\<forall>c \<in> set p. is_digit c) \<and> (1 < length p \<longrightarrow> hd p \<noteq> digit_char 0)
     \<and> of_dec p \<le> 255"

definition parseIPv4 :: "string \<Rightarrow> byte list option" where
  "parseIPv4 s =
     (let ps = split_on CHR ''.'' s
      in if length ps = 4 \<and> (\<forall>p \<in> set ps. octet_ok p) then Some (map (\<lambda>p. of_nat (of_dec p)) ps)
         else None)"

definition hex_val :: "char \<Rightarrow> nat option" where
  "hex_val c =
     (if is_digit c then Some (digit_val c)
      else if 97 \<le> ord_byte c \<and> ord_byte c \<le> 102 then Some (ord_byte c - 87)
      else if 65 \<le> ord_byte c \<and> ord_byte c \<le> 70 then Some (ord_byte c - 55)
      else None)"

definition hex_digits :: "string \<Rightarrow> string" where
  "hex_digits s = takeWhile (\<lambda>c. hex_val c \<noteq> None) s"

text \<open>
  The loop of \<open>netip.parseIPv6\<close>: \<open>acc\<close> holds the bytes so far, \<open>ell\<close> the position of the
  ellipsis, and at most eight groups are read.
\<close>

fun ip6_loop :: "nat \<Rightarrow> byte list \<Rightarrow> nat option \<Rightarrow> string \<Rightarrow> (byte list \<times> nat option \<times> string) option" where
  "ip6_loop 0 acc ell s = Some (acc, ell, s)"
| "ip6_loop (Suc k) acc ell s =
     (let ds = hex_digits s; rest = drop (length ds) s;
          n = foldl (\<lambda>v c. 16 * v + the (hex_val c)) 0 ds
      in if ds = [] \<or> 4 < length ds then None
         else if rest \<noteq> [] \<and> hd rest = CHR ''.'' then
           (if (ell = None \<and> length acc \<noteq> 12) \<or> length acc + 4 > 16 then None
            else case parseIPv4 s of None \<Rightarrow> None | Some q \<Rightarrow> Some (acc @ q, ell, []))
         else let acc' = acc @ [of_nat (n div 256), of_nat (n mod 256)]
              in if rest = [] then Some (acc', ell, [])
                 else if hd rest \<noteq> CHR '':'' \<or> tl rest = [] then None
                 else let s' = tl rest
                      in if hd s' = CHR '':'' then
                           (if ell \<noteq> None then None
                            else if tl s' = [] then Some (acc', Some (length acc'), [])
                            else ip6_loop k acc' (Some (length acc')) (tl s'))
                         else ip6_loop k acc' ell s')"

definition parseIPv6 :: "string \<Rightarrow> byte list option" where
  "parseIPv6 s0 =
     (if CHR ''%'' \<in> set s0 then None
      else let lead = prefix ''::'' s0; s = (if lead then drop 2 s0 else s0)
           in if lead \<and> s = [] then Some (replicate 16 0)
              else case ip6_loop 8 [] (if lead then Some 0 else None) s of
                     None \<Rightarrow> None
                   | Some (acc, ell, rest) \<Rightarrow>
                       if rest \<noteq> [] then None
                       else if length acc < 16 then
                         (case ell of None \<Rightarrow> None
                          | Some e \<Rightarrow> Some (take e acc @ replicate (16 - length acc) 0 @ drop e acc))
                       else if ell \<noteq> None then None else Some acc)"

text \<open>\<open>net.ParseIP\<close>: the 16-byte form; the first of the characters \<open>.\<close>, \<open>:\<close>, \<open>%\<close> decides which
  syntax is tried, and an address with a zone is rejected.\<close>

definition ParseIP :: "string \<Rightarrow> byte list option" where
  "ParseIP s =
     (case find (\<lambda>c. c = CHR ''.'' \<or> c = CHR '':'' \<or> c = CHR ''%'') s of
        Some c \<Rightarrow>
          if c = CHR ''.'' then map_option (\<lambda>q. v4InV6Prefix @ q) (parseIPv4 s)
          else if c = CHR '':'' then parseIPv6 s
          else None
      | None \<Rightarrow> None)"

section \<open>Round trip for IPv4\<close>

lemma digit_no_sep: "is_digit c \<Longrightarrow> c \<noteq> CHR ''.'' \<and> c \<noteq> CHR '':'' \<and> c \<noteq> CHR ''%''"
  by (auto simp: is_digit_def ord_byte_def)

lemma dec_no_dot: "CHR ''.'' \<notin> set (dec n)"
  using dec_digits [of n] digit_no_sep by blast

lemma length_dec_1: "n < 10 \<Longrightarrow> length (dec n) = 1"
  by (subst dec.simps) simp

lemma octet_ok_dec: "n \<le> 255 \<Longrightarrow> octet_ok (dec n)"
  using dec_hd [of n] length_dec_1 [of n] dec_digits [of n]
  by (cases "n = 0") (auto simp: octet_ok_def)

lemma unat_byte_le: "unat (b :: byte) \<le> 255"
  using unsigned_less [of b, where ?'a = nat] by simp

lemma parseIPv4_ip4_string:
  assumes "length q = 4"
  shows "parseIPv4 (ip4_string q) = Some q"
proof -
  have "split_on CHR ''.'' (ip4_string q) = map (\<lambda>b. dec (unat b)) q"
    unfolding ip4_string_def using assms dec_no_dot by (intro split_join) auto
  then show ?thesis
    using assms by (auto simp: parseIPv4_def octet_ok_dec unat_byte_le comp_def)
qed

lemma ip4_string_inject:
  "length p = 4 \<Longrightarrow> length q = 4 \<Longrightarrow> ip4_string p = ip4_string q \<longleftrightarrow> p = q"
  by (metis option.inject parseIPv4_ip4_string)

lemma length_4: "length q = 4 \<longleftrightarrow> (\<exists>a b c d. q = [a, b, c, d])"
  by (auto simp: numeral_eq_Suc length_Suc_conv)

lemma find_sep_digits:
  "\<forall>c \<in> set p. is_digit c \<Longrightarrow> find (\<lambda>c. c = CHR ''.'' \<or> c = CHR '':'' \<or> c = CHR ''%'') (p @ s) =
     find (\<lambda>c. c = CHR ''.'' \<or> c = CHR '':'' \<or> c = CHR ''%'') s"
  by (induction p) (auto dest: digit_no_sep)

lemma ParseIP_ip4_string:
  assumes "length q = 4"
  shows "ParseIP (ip4_string q) = Some (v4InV6Prefix @ q)"
proof -
  obtain a b c d where q: "q = [a, b, c, d]"
    using assms by (auto simp: length_4)
  have "find (\<lambda>c. c = CHR ''.'' \<or> c = CHR '':'' \<or> c = CHR ''%'') (ip4_string q) = Some CHR ''.''"
    by (simp add: q ip4_string_def find_sep_digits [OF dec_digits])
  then show ?thesis
    by (simp add: ParseIP_def parseIPv4_ip4_string [OF assms])
qed

lemma To4_mapped: "length q = 4 \<Longrightarrow> To4 (v4InV6Prefix @ q) = Some q"
  by (simp add: To4_def v4InV6Prefix_def)

lemma IP_String_4: "length q = 4 \<Longrightarrow> IP_String q = ip4_string q"
  by (auto simp: IP_String_def To4_def)

lemma IP_String_mapped: "length q = 4 \<Longrightarrow> IP_String (v4InV6Prefix @ q) = ip4_string q"
  using To4_mapped [of q] by (simp add: IP_String_def) (simp add: v4InV6Prefix_def)

lemma ip4_string_chars:
  assumes "length q = 4" and "c \<in> set (ip4_string q)"
  shows "is_digit c \<or> c = CHR ''.''"
proof -
  obtain w x y z where q: "q = [w, x, y, z]"
    using assms(1) by (auto simp: length_4)
  then show ?thesis
    using assms(2) dec_digits by (auto simp: ip4_string_def)
qed

lemma ip4_string_not_Nil: "length q = 4 \<Longrightarrow> ip4_string q \<noteq> []"
  by (auto simp: length_4 ip4_string_def)

end
