(* ===== verification/Router.thy ===== *)
theory Router
  imports Go_Strings "HOL-Library.Word"
begin

text \<open>
  The routing table, \<open>internal/router/pool.go\<close>: one pool of backends per host, each with a
  round-robin counter and an alive flag per backend, and the reverse index from a backend
  address to a host. \<open>Pick\<close> and \<open>SetBackendAlive\<close> return the changed table. The counter is a
  64-bit word and wraps around as the code's \<open>uint64\<close> does.
\<close>

section \<open>State\<close>

record backend =
  address :: string
  alive :: "32 word"

record pool =
  backends :: "backend list"
  rr :: "64 word"

record Router =
  pools :: "(string, pool) gomap"
  backendToHost :: "(string, string) gomap"

record BackendState =
  Host :: string
  Address :: string
  Alive :: bool

definition err_RouteNotFound :: go_error where
  "err_RouteNotFound = \<lparr>err_msg = ''route not found'', err_is = [ErrRouteNotFound]\<rparr>"

definition err_NoAliveBackends :: go_error where
  "err_NoAliveBackends = \<lparr>err_msg = ''no alive backends'', err_is = [ErrNoAliveBackends]\<rparr>"

section \<open>Operations\<close>

definition normalizeHost :: "unicode \<Rightarrow> string \<Rightarrow> string" where
  "normalizeHost u host = TrimSuffix (TrimSpace (ToLower (uc_lower u) host)) ''.''"

text \<open>The inner loop of \<open>New\<close>: one backend object per address, and the first host that
  mentions an address owns it in the reverse index.\<close>

fun new_backends ::
  "string \<Rightarrow> string list \<Rightarrow> backend list \<Rightarrow> (string, string) gomap
     \<Rightarrow> backend list \<times> (string, string) gomap" where
  "new_backends hostKey [] bks b2h = (bks, b2h)"
| "new_backends hostKey (addr # addrs) bks b2h =
     new_backends hostKey addrs (bks @ [\<lparr>address = addr, alive = 1\<rparr>])
       (if gm_get b2h addr = None then gm_put addr hostKey b2h else b2h)"

fun new_pools ::
  "unicode \<Rightarrow> (string \<times> string list) list \<Rightarrow> (string, pool) gomap \<Rightarrow> (string, string) gomap
     \<Rightarrow> Router result" where
  "new_pools u [] ps b2h = Inr \<lparr>pools = ps, backendToHost = b2h\<rparr>"
| "new_pools u ((host, addresses) # rs) ps b2h =
     (let hostKey = normalizeHost u host
      in if hostKey = [] then Inl (errors_New ''empty route host'')
         else if addresses = [] then
           Inl (errors_New (''route '' @ Quote (uc_print u) host @ '' has no backends''))
         else let (bks, b2h') = new_backends hostKey addresses [] b2h
              in new_pools u rs (gm_put hostKey \<lparr>backends = bks, rr = 0\<rparr> ps) b2h')"

definition New :: "unicode \<Rightarrow> key_order \<Rightarrow> (string, string list) gomap \<Rightarrow> Router result" where
  "New u ord routes =
     (if routes = [] then Inl (errors_New ''empty routes'')
      else new_pools u (range_map ord routes) gm_empty gm_empty)"

definition HostForBackendAddr :: "Router \<Rightarrow> string \<Rightarrow> string option" where
  "HostForBackendAddr r addr = gm_get (backendToHost r) addr"

text \<open>The scan of \<open>Pick\<close>: \<open>i\<close> counts up, \<open>k\<close> iterations are left.\<close>

fun pick_scan :: "backend list \<Rightarrow> 64 word \<Rightarrow> nat \<Rightarrow> nat \<Rightarrow> string option" where
  "pick_scan bs start i 0 = None"
| "pick_scan bs start i (Suc k) =
     (let idx = unat ((start + of_nat i) mod of_nat (length bs)); b = bs ! idx
      in if alive b = 1 then Some (address b) else pick_scan bs start (Suc i) k)"

definition Pick :: "unicode \<Rightarrow> Router \<Rightarrow> string \<Rightarrow> string result \<times> Router" where
  "Pick u r host =
     (let key = normalizeHost u host
      in case gm_get (pools r) key of
           None \<Rightarrow> (Inl err_RouteNotFound, r)
         | Some p \<Rightarrow>
             let n = length (backends p);
                 start = (rr p + 1) - 1;
                 r' = r\<lparr>pools := gm_put key (p\<lparr>rr := rr p + 1\<rparr>) (pools r)\<rparr>
             in (case pick_scan (backends p) start 0 n of
                   Some a \<Rightarrow> (Inr a, r')
                 | None \<Rightarrow> (Inl err_NoAliveBackends, r')))"

text \<open>The loop of \<open>SetBackendAlive\<close>: it swaps the flag of the first backend with the address
  and reports whether the flag changed.\<close>

fun swap_alive :: "string \<Rightarrow> 32 word \<Rightarrow> backend list \<Rightarrow> (bool \<times> backend list) option" where
  "swap_alive addr newVal [] = None"
| "swap_alive addr newVal (b # bs) =
     (if address b \<noteq> addr then map_option (\<lambda>(c, bs'). (c, b # bs')) (swap_alive addr newVal bs)
      else Some (alive b \<noteq> newVal, b\<lparr>alive := newVal\<rparr> # bs))"

definition SetBackendAlive ::
  "unicode \<Rightarrow> Router \<Rightarrow> string \<Rightarrow> string \<Rightarrow> bool \<Rightarrow> bool result \<times> Router" where
  "SetBackendAlive u r host addr up =
     (let key = normalizeHost u host
      in case gm_get (pools r) key of
           None \<Rightarrow> (Inl err_RouteNotFound, r)
         | Some p \<Rightarrow>
             (case swap_alive addr (if up then 1 else 0) (backends p) of
                Some (changed, bs') \<Rightarrow>
                  (Inr changed, r\<lparr>pools := gm_put key (p\<lparr>backends := bs'\<rparr>) (pools r)\<rparr>)
              | None \<Rightarrow>
                  (Inl (errors_New (''backend '' @ Quote (uc_print u) addr @ '' not found for host ''
                     @ Quote (uc_print u) host)), r)))"

definition Snapshot :: "key_order \<Rightarrow> Router \<Rightarrow> BackendState list" where
  "Snapshot ord r =
     concat (map (\<lambda>(host, p).
       map (\<lambda>b. \<lparr>Host = host, Address = address b, Alive = (alive b = 1)\<rparr>) (backends p))
       (range_map ord (pools r)))"

section \<open>Host keys\<close>

text \<open>A host name no rule of \<open>normalizeHost\<close> changes: lower-case printable ASCII that does not
  end in a dot.\<close>

definition clean_host :: "string \<Rightarrow> bool" where
  "clean_host h \<longleftrightarrow> no_upper h \<and> (\<forall>c \<in> set h. graphic c) \<and> \<not> suffix ''.'' h"

lemma normalizeHost_clean: "clean_host h \<Longrightarrow> normalizeHost u h = h"
  by (simp add: normalizeHost_def clean_host_def ToLower_no_upper TrimSpace_graphic TrimSuffix_id)

lemma normalizeHost_Nil [simp]: "normalizeHost u [] = []"
  by (simp add: normalizeHost_def TrimSuffix_def)

section \<open>Construction\<close>

definition fresh_backends :: "string list \<Rightarrow> backend list" where
  "fresh_backends addrs = map (\<lambda>a. \<lparr>address = a, alive = 1\<rparr>) addrs"

lemma fst_new_backends:
  "fst (new_backends hk addrs bks b2h) = bks @ fresh_backends addrs"
  by (induction addrs arbitrary: bks b2h) (simp_all add: fresh_backends_def)

lemma get_new_backends:
  "gm_get (snd (new_backends hk addrs bks b2h)) a =
     (case gm_get b2h a of Some h \<Rightarrow> Some h | None \<Rightarrow> if a \<in> set addrs then Some hk else None)"
  by (induction addrs arbitrary: bks b2h) (auto simp: gm.get_put split: option.splits)

lemma inv_new_backends: "gm_inv b2h \<Longrightarrow> gm_inv (snd (new_backends hk addrs bks b2h))"
  by (induction addrs arbitrary: bks b2h) (auto simp: gm.inv_put)

definition route_ok :: "unicode \<Rightarrow> string \<times> string list \<Rightarrow> bool" where
  "route_ok u e \<longleftrightarrow> normalizeHost u (fst e) \<noteq> [] \<and> snd e \<noteq> []"

lemma new_pools_Cons:
  "new_pools u (e # rs) ps b2h =
     (if normalizeHost u (fst e) = [] then Inl (errors_New ''empty route host'')
      else if snd e = [] then
        Inl (errors_New (''route '' @ Quote (uc_print u) (fst e) @ '' has no backends''))
      else new_pools u rs
        (gm_put (normalizeHost u (fst e)) \<lparr>backends = fresh_backends (snd e), rr = 0\<rparr> ps)
        (snd (new_backends (normalizeHost u (fst e)) (snd e) [] b2h)))"
  by (cases e) (auto simp: Let_def split_beta fst_new_backends)

lemma new_pools_ok_iff: "is_ok (new_pools u rs ps b2h) \<longleftrightarrow> (\<forall>e \<in> set rs. route_ok u e)"
  by (induction rs arbitrary: ps b2h)
    (auto simp: new_pools_Cons route_ok_def simp del: new_pools.simps(2))

lemma new_pools_get:
  "new_pools u rs ps b2h = Inr r \<Longrightarrow>
     gm_get (pools r) k =
       (case find (\<lambda>e. normalizeHost u (fst e) = k) (rev rs) of
          Some e \<Rightarrow> Some \<lparr>backends = fresh_backends (snd e), rr = 0\<rparr>
        | None \<Rightarrow> gm_get ps k)"
proof (induction rs arbitrary: ps b2h)
  case Nil
  then show ?case by auto
next
  case (Cons e rs)
  then show ?case
    by (auto simp: new_pools_Cons find_append gm.get_put simp del: new_pools.simps(2)
        split: if_splits option.splits)
qed

lemma new_pools_b2h:
  "new_pools u rs ps b2h = Inr r \<Longrightarrow>
     gm_get (backendToHost r) a =
       (case gm_get b2h a of
          Some h \<Rightarrow> Some h
        | None \<Rightarrow> map_option (\<lambda>e. normalizeHost u (fst e)) (find (\<lambda>e. a \<in> set (snd e)) rs))"
proof (induction rs arbitrary: ps b2h)
  case Nil
  then show ?case by (auto split: option.splits)
next
  case (Cons e rs)
  then show ?case
    by (auto simp: new_pools_Cons get_new_backends simp del: new_pools.simps(2)
        split: if_splits option.splits)
qed

lemma new_pools_inv:
  "new_pools u rs ps b2h = Inr r \<Longrightarrow> gm_inv ps \<Longrightarrow> gm_inv b2h \<Longrightarrow>
     gm_inv (pools r) \<and> gm_inv (backendToHost r)"
  by (induction rs arbitrary: ps b2h)
    (auto simp: new_pools_Cons gm.inv_put inv_new_backends simp del: new_pools.simps(2) split: if_splits)

text \<open>What \<open>New\<close> returns, entry by entry, for any order of the range over \<open>routes\<close>.\<close>

definition keys_distinct :: "unicode \<Rightarrow> (string, string list) gomap \<Rightarrow> bool" where
  "keys_distinct u routes \<longleftrightarrow> distinct (map (\<lambda>e. normalizeHost u (fst e)) routes)"

lemma keys_distinct_range:
  "is_order ord \<Longrightarrow> gm_inv routes \<Longrightarrow> keys_distinct u routes \<Longrightarrow>
     distinct (map (\<lambda>e. normalizeHost u (fst e)) (range_map ord routes))"
  unfolding keys_distinct_def
  by (metis mset_map mset_range_map mset_eq_imp_distinct_iff)

definition built :: "unicode \<Rightarrow> key_order \<Rightarrow> (string, string list) gomap \<Rightarrow> Router \<Rightarrow> bool" where
  "built u ord routes r \<longleftrightarrow> is_order ord \<and> gm_inv routes \<and> New u ord routes = Inr r"

lemma built_order: "built u ord routes r \<Longrightarrow> is_order ord"
  and built_inv: "built u ord routes r \<Longrightarrow> gm_inv routes"
  by (simp_all add: built_def)

lemma built_set: "built u ord routes r \<Longrightarrow> set (range_map ord routes) = set routes"
  by (simp add: built_def set_range_map)

lemma New_entry_route: "built u ord routes r \<Longrightarrow> new_pools u (range_map ord routes) gm_empty gm_empty = Inr r"
  by (simp add: built_def New_def split: if_splits)

lemma New_pool_of_route:
  assumes b: "built u ord routes r" and "keys_distinct u routes" and "(host, addrs) \<in> set routes"
  shows "gm_get (pools r) (normalizeHost u host) = Some \<lparr>backends = fresh_backends addrs, rr = 0\<rparr>"
proof -
  have "(host, addrs) \<in> set (range_map ord routes)"
    using assms(3) built_set [OF b] by simp
  then show ?thesis
    using find_rev_distinct [OF keys_distinct_range [OF built_order [OF b] built_inv [OF b] assms(2)], of "(host, addrs)"]
    by (simp add: new_pools_get [OF New_entry_route [OF b]])
qed

lemma New_pool_from_route:
  assumes b: "built u ord routes r" and "gm_get (pools r) k = Some p"
  shows "\<exists>(host, addrs) \<in> set routes.
    k = normalizeHost u host \<and> p = \<lparr>backends = fresh_backends addrs, rr = 0\<rparr>"
proof -
  obtain e where "find (\<lambda>e. normalizeHost u (fst e) = k) (rev (range_map ord routes)) = Some e"
    and p: "p = \<lparr>backends = fresh_backends (snd e), rr = 0\<rparr>"
    using assms(2) by (auto simp: new_pools_get [OF New_entry_route [OF b]] gm.get_empty split: option.splits)
  then have "e \<in> set (range_map ord routes)" and "normalizeHost u (fst e) = k"
    by (auto dest: find_SomeD)
  then show ?thesis
    using p built_set [OF b] by (auto intro!: bexI [of _ e] split: prod.split)
qed

lemma New_routes_ok:
  assumes b: "built u ord routes r"
  shows "\<forall>e \<in> set routes. route_ok u e"
  using new_pools_ok_iff [of u "range_map ord routes" gm_empty gm_empty]
  by (simp add: New_entry_route [OF b] built_set [OF b])

lemma New_host_of_addr:
  assumes b: "built u ord routes r"
  shows
  "HostForBackendAddr r a =
     map_option (\<lambda>e. normalizeHost u (fst e)) (find (\<lambda>e. a \<in> set (snd e)) (range_map ord routes))"
  by (simp add: HostForBackendAddr_def new_pools_b2h [OF New_entry_route [OF b]] gm.get_empty)

lemma New_host_of_addr_route:
  assumes b: "built u ord routes r" and "HostForBackendAddr r a = Some h"
  shows "\<exists>(host, addrs) \<in> set routes. a \<in> set addrs \<and> h = normalizeHost u host"
proof -
  obtain e where "find (\<lambda>e. a \<in> set (snd e)) (range_map ord routes) = Some e"
    and h: "h = normalizeHost u (fst e)"
    using assms(2) by (auto simp: New_host_of_addr [OF b])
  then have "e \<in> set (range_map ord routes)" and "a \<in> set (snd e)"
    by (auto dest: find_SomeD)
  then show ?thesis
    using h built_set [OF b] by (auto intro!: bexI [of _ e] split: prod.split)
qed

lemma New_pool_exists:
  assumes b: "built u ord routes r" and "(host, addrs) \<in> set routes"
  shows "gm_get (pools r) (normalizeHost u host) \<noteq> None"
proof -
  have "(host, addrs) \<in> set (rev (range_map ord routes))"
    using assms(2) built_set [OF b] by simp
  then have "find (\<lambda>e. normalizeHost u (fst e) = normalizeHost u host) (rev (range_map ord routes)) \<noteq> None"
    by (metis (mono_tags, lifting) find_None_iff fst_conv)
  then show ?thesis
    by (auto simp: new_pools_get [OF New_entry_route [OF b]])
qed

section \<open>The invariant\<close>

definition pool_wf :: "pool \<Rightarrow> bool" where
  "pool_wf p \<longleftrightarrow> backends p \<noteq> [] \<and> length (backends p) < 2 ^ 63
     \<and> (\<forall>b \<in> set (backends p). alive b = 0 \<or> alive b = 1)"

definition router_wf :: "Router \<Rightarrow> bool" where
  "router_wf r \<longleftrightarrow> gm_inv (pools r) \<and> gm_inv (backendToHost r)
     \<and> (\<forall>k p. gm_get (pools r) k = Some p \<longrightarrow> k \<noteq> [] \<and> pool_wf p)
     \<and> (\<forall>a h. gm_get (backendToHost r) a = Some h \<longrightarrow> gm_get (pools r) h \<noteq> None)"

lemma router_wf_pool: "router_wf r \<Longrightarrow> gm_get (pools r) k = Some p \<Longrightarrow> pool_wf p"
  by (simp add: router_wf_def)

lemma router_wf_put:
  assumes "router_wf r" and "gm_get (pools r) k = Some p" and "pool_wf p'"
  shows "router_wf (r\<lparr>pools := gm_put k p' (pools r)\<rparr>)"
  using assms by (auto simp: router_wf_def gm.get_put gm.inv_put)

lemma fresh_pool_wf:
  "addrs \<noteq> [] \<Longrightarrow> length addrs < 2 ^ 63 \<Longrightarrow> pool_wf \<lparr>backends = fresh_backends addrs, rr = 0\<rparr>"
  by (auto simp: pool_wf_def fresh_backends_def)

lemma built_router_wf:
  assumes b: "built u ord routes r" and len: "\<forall>e \<in> set routes. length (snd e) < 2 ^ 63"
  shows "router_wf r"
  unfolding router_wf_def
proof (intro conjI allI impI)
  show "gm_inv (pools r)" and "gm_inv (backendToHost r)"
    using new_pools_inv [OF New_entry_route [OF b] gm.inv_empty gm.inv_empty] by simp_all
next
  fix k p assume "gm_get (pools r) k = Some p"
  from New_pool_from_route [OF b this] obtain host addrs where
    e: "(host, addrs) \<in> set routes" and k: "k = normalizeHost u host"
    and p: "p = \<lparr>backends = fresh_backends addrs, rr = 0\<rparr>" by auto
  from New_routes_ok [OF b] e have "normalizeHost u host \<noteq> []" "addrs \<noteq> []"
    by (auto simp: route_ok_def)
  then show "k \<noteq> []" and "pool_wf p"
    using k p len e by (auto intro!: fresh_pool_wf)
next
  fix a h assume "gm_get (backendToHost r) a = Some h"
  then show "gm_get (pools r) h \<noteq> None"
    using New_host_of_addr_route [OF b, of a h] New_pool_exists [OF b]
    by (auto simp: HostForBackendAddr_def)
qed

section \<open>Picking a backend\<close>

lemma idx_unat:
  assumes "unat (start :: 64 word) + i < 2 ^ 64" and "n < 2 ^ 64"
  shows "unat ((start + of_nat i) mod of_nat n :: 64 word) = (unat start + i) mod n"
proof -
  have "unat (of_nat i :: 64 word) = i" and "unat (of_nat n :: 64 word) = n"
    using assms by (simp_all add: unat_of_nat)
  then show ?thesis
    using assms by (simp add: unat_mod unat_word_ariths)
qed

lemma idx_less:
  assumes "0 < n" and "n < 2 ^ 64"
  shows "unat (w mod of_nat n :: 64 word) < n"
  using assms by (simp add: unat_mod unat_of_nat)

lemma pick_scan_sound:
  "pick_scan bs start i k = Some a \<Longrightarrow> bs \<noteq> [] \<Longrightarrow> length bs < 2 ^ 64 \<Longrightarrow>
     \<exists>b \<in> set bs. alive b = 1 \<and> address b = a"
proof (induction bs start i k rule: pick_scan.induct)
  case (2 bs start i k)
  then show ?case
    by (auto simp: Let_def idx_less intro!: nth_mem split: if_splits)
qed simp

definition up :: "backend \<Rightarrow> bool" where
  "up b \<longleftrightarrow> alive b = 1"

text \<open>The reference: the first backend that is up, in the order that starts at the counter.\<close>

definition pick_spec :: "backend list \<Rightarrow> nat \<Rightarrow> string option" where
  "pick_spec bs k = map_option address (find up (rotate k bs))"

lemma pick_scan_window:
  assumes "length bs < 2 ^ 64" and "unat start + i + k \<le> 2 ^ 64"
  shows "pick_scan bs start i k =
    map_option address (find up (map (\<lambda>j. bs ! ((unat start + j) mod length bs)) [i..<i + k]))"
  using assms
proof (induction bs start i k rule: pick_scan.induct)
  case (2 bs start i k)
  have "[i..<i + Suc k] = i # [Suc i..<Suc i + k]"
    by (simp add: upt_conv_Cons)
  with 2 show ?case
    by (simp add: Let_def idx_unat up_def)
qed simp

lemma rotate_window:
  "map (\<lambda>j. bs ! ((s + j) mod length bs)) [0..<length bs] = rotate s bs"
  by (intro nth_equalityI) (simp_all add: nth_rotate)

lemma pick_scan_spec:
  assumes "length bs < 2 ^ 64" and "unat start + length bs \<le> 2 ^ 64"
  shows "pick_scan bs start 0 (length bs) = pick_spec bs (unat start)"
  using pick_scan_window [OF assms(1), of start 0 "length bs"] assms(2)
  by (simp add: rotate_window pick_spec_def)

lemma pick_spec_None: "pick_spec bs k = None \<longleftrightarrow> (\<forall>b \<in> set bs. \<not> up b)"
  by (auto simp: pick_spec_def find_None_iff)

lemma Pick_cases:
  "Pick u r host =
     (case gm_get (pools r) (normalizeHost u host) of
        None \<Rightarrow> (Inl err_RouteNotFound, r)
      | Some p \<Rightarrow>
          ((case pick_scan (backends p) (rr p) 0 (length (backends p)) of
              Some a \<Rightarrow> Inr a | None \<Rightarrow> Inl err_NoAliveBackends),
           r\<lparr>pools := gm_put (normalizeHost u host) (p\<lparr>rr := rr p + 1\<rparr>) (pools r)\<rparr>))"
  by (auto simp: Pick_def Let_def split: option.split)

lemma Pick_wf: "router_wf r \<Longrightarrow> router_wf (snd (Pick u r host))"
  by (auto simp: Pick_cases pool_wf_def split: option.splits
      intro!: router_wf_put dest: router_wf_pool)

lemma Pick_frame:
  "backendToHost (snd (Pick u r host)) = backendToHost r"
  "k \<noteq> normalizeHost u host \<Longrightarrow> gm_get (pools (snd (Pick u r host))) k = gm_get (pools r) k"
  "map_option backends (gm_get (pools (snd (Pick u r host))) k) = map_option backends (gm_get (pools r) k)"
  by (auto simp: Pick_cases gm.get_put split: option.splits)

section \<open>Changing a backend's state\<close>

text \<open>The addresses of a host's pool with their states, as a client sees them.\<close>

definition view :: "unicode \<Rightarrow> Router \<Rightarrow> string \<Rightarrow> (string \<times> bool) list option" where
  "view u r host =
     map_option (\<lambda>p. map (\<lambda>b. (address b, up b)) (backends p)) (gm_get (pools r) (normalizeHost u host))"

fun mark :: "string \<Rightarrow> bool \<Rightarrow> (string \<times> bool) list \<Rightarrow> (string \<times> bool) list" where
  "mark a v [] = []"
| "mark a v (x # xs) = (if fst x = a then (a, v) # xs else x # mark a v xs)"

lemma mark_id: "a \<notin> fst ` set xs \<Longrightarrow> mark a v xs = xs"
  by (induction xs) auto

lemma mark_False:
  "(a, True) \<notin> set xs \<Longrightarrow> b \<noteq> a \<or> \<not> v \<Longrightarrow> (a, True) \<notin> set (mark b v xs)"
  by (induction xs) auto

lemma mark_False_distinct: "distinct (map fst xs) \<Longrightarrow> (a, True) \<notin> set (mark a False xs)"
  by (induction xs) (auto simp: image_iff)

lemma map_fst_mark [simp]: "map fst (mark a v xs) = map fst xs"
  by (induction xs) auto

lemma mark_True: "a \<in> fst ` set xs \<Longrightarrow> (a, True) \<in> set (mark a True xs)"
  by (induction xs) auto

lemma up_update [simp]: "up (b\<lparr>alive := (if v then 1 else 0)\<rparr>) = v"
  by (simp add: up_def)

lemma swap_alive_None: "swap_alive a w bs = None \<longleftrightarrow> a \<notin> address ` set bs"
  by (induction bs) auto

lemma swap_alive_view:
  "swap_alive a (if v then 1 else 0) bs = Some (c, bs') \<Longrightarrow>
     map (\<lambda>b. (address b, up b)) bs' = mark a v (map (\<lambda>b. (address b, up b)) bs)"
  by (induction bs arbitrary: bs') (auto split: if_splits)

lemma swap_alive_wf:
  "swap_alive a (if v then 1 else 0) bs = Some (c, bs') \<Longrightarrow>
     length bs' = length bs \<and>
     ((\<forall>b \<in> set bs. alive b = 0 \<or> alive b = 1) \<longrightarrow> (\<forall>b \<in> set bs'. alive b = 0 \<or> alive b = 1))"
  by (induction bs arbitrary: bs') (auto split: if_splits)

lemma swap_alive_changed:
  "swap_alive a (if v then 1 else 0) bs = Some (c, bs') \<Longrightarrow>
     (\<forall>b \<in> set bs. alive b = 0 \<or> alive b = 1) \<Longrightarrow>
     c \<longleftrightarrow> bs' \<noteq> bs"
proof (induction bs arbitrary: bs')
  case (Cons b bs)
  then show ?case
    by (cases b) (auto split: if_splits)
qed simp

lemma SetBackendAlive_wf: "router_wf r \<Longrightarrow> router_wf (snd (SetBackendAlive u r host a v))"
  using swap_alive_wf [of a v]
  by (fastforce simp: SetBackendAlive_def Let_def pool_wf_def split: option.splits
      intro!: router_wf_put dest: router_wf_pool)

lemma SetBackendAlive_view:
  "view u (snd (SetBackendAlive u r host a v)) h =
     (if normalizeHost u h = normalizeHost u host then map_option (mark a v) (view u r h)
      else view u r h)"
proof (cases "gm_get (pools r) (normalizeHost u host)")
  case None
  then show ?thesis
    by (simp add: SetBackendAlive_def view_def)
next
  case (Some p)
  show ?thesis
  proof (cases "swap_alive a (if v then 1 else 0) (backends p)")
    case None
    then have "mark a v (map (\<lambda>b. (address b, up b)) (backends p)) = map (\<lambda>b. (address b, up b)) (backends p)"
      by (intro mark_id) (auto simp: swap_alive_None)
    then show ?thesis
      using None Some by (auto simp: SetBackendAlive_def view_def)
  next
    case (Some q)
    then show ?thesis
      using swap_alive_view [of a v "backends p" "fst q" "snd q"] \<open>gm_get _ _ = Some p\<close>
      by (auto simp: SetBackendAlive_def view_def gm.get_put split: prod.split)
  qed
qed

lemma Pick_view [simp]: "view u (snd (Pick u r host)) h = view u r h"
  by (auto simp: Pick_cases view_def gm.get_put split: option.split)

lemma Pick_Inr:
  assumes "router_wf r" and "fst (Pick u r host) = Inr a"
  shows "\<exists>xs. view u r host = Some xs \<and> (a, True) \<in> set xs"
proof -
  obtain p where p: "gm_get (pools r) (normalizeHost u host) = Some p"
    and scan: "pick_scan (backends p) (rr p) 0 (length (backends p)) = Some a"
    using assms(2) by (auto simp: Pick_cases split: option.splits)
  have "backends p \<noteq> []" and "length (backends p) < 2 ^ 64"
    using router_wf_pool [OF assms(1) p] by (auto simp: pool_wf_def)
  from pick_scan_sound [OF scan this] show ?thesis
    using p by (auto simp: view_def up_def image_iff)
qed

section \<open>The contract of the table\<close>

text \<open>
  What the dialer and the health checker rely on: \<open>pick\<close> returns an address that is up in the
  host's view and changes no view; \<open>set_alive\<close> marks one address in the views of the hosts that
  share a key, and nothing else.
\<close>

datatype router_op = OpPick string | OpSet string string bool

locale backend_table =
  fixes pick :: "'r \<Rightarrow> string \<Rightarrow> string result \<times> 'r"
    and set_alive :: "'r \<Rightarrow> string \<Rightarrow> string \<Rightarrow> bool \<Rightarrow> bool result \<times> 'r"
    and vw :: "'r \<Rightarrow> string \<Rightarrow> (string \<times> bool) list option"
    and key :: "string \<Rightarrow> string"
    and inv :: "'r \<Rightarrow> bool"
  assumes pick_inv: "inv r \<Longrightarrow> inv (snd (pick r h))"
    and set_inv: "inv r \<Longrightarrow> inv (snd (set_alive r h a v))"
    and pick_vw: "vw (snd (pick r h)) h' = vw r h'"
    and set_vw: "vw (snd (set_alive r h a v)) h' =
      (if key h' = key h then map_option (mark a v) (vw r h') else vw r h')"
    and pick_up: "inv r \<Longrightarrow> fst (pick r h) = Inr a \<Longrightarrow> \<exists>xs. vw r h = Some xs \<and> (a, True) \<in> set xs"
begin

definition step :: "'r \<Rightarrow> router_op \<Rightarrow> 'r" where
  "step r op = (case op of OpPick h \<Rightarrow> snd (pick r h) | OpSet h a v \<Rightarrow> snd (set_alive r h a v))"

lemma step_inv: "inv r \<Longrightarrow> inv (step r op)"
  by (cases op) (simp_all add: step_def pick_inv set_inv)

lemma run_inv: "inv r \<Longrightarrow> inv (foldl step r ops)"
  by (induction ops arbitrary: r) (simp_all add: step_inv)

lemma run_routes: "vw (foldl step r ops) h = None \<longleftrightarrow> vw r h = None"
  by (induction ops arbitrary: r) (auto simp: step_def pick_vw set_vw split: router_op.split)

lemma run_addresses:
  "map_option (map fst) (vw (foldl step r ops) h) = map_option (map fst) (vw r h)"
proof (induction ops arbitrary: r)
  case (Cons op ops)
  have "map_option (map fst) (vw (step r op) h) = map_option (map fst) (vw r h)"
    by (cases op) (auto simp: step_def pick_vw set_vw option.map_comp comp_def)
  then show ?case
    by (simp add: Cons)
qed simp

lemma run_down:
  assumes "vw r h = Some xs" and "(a, True) \<notin> set xs"
    and "\<forall>h'. key h' = key h \<longrightarrow> OpSet h' a True \<notin> set ops"
  shows "\<exists>ys. vw (foldl step r ops) h = Some ys \<and> (a, True) \<notin> set ys"
  using assms
proof (induction ops arbitrary: r xs)
  case (Cons op ops)
  have "\<exists>ys. vw (step r op) h = Some ys \<and> (a, True) \<notin> set ys"
  proof (cases op)
    case (OpPick h')
    then show ?thesis
      using Cons.prems by (simp add: step_def pick_vw)
  next
    case (OpSet h' b v)
    then have "key h = key h' \<Longrightarrow> b \<noteq> a \<or> \<not> v"
      using Cons.prems(3) by auto
    then show ?thesis
      using OpSet Cons.prems(1,2) mark_False [of a xs b v] by (auto simp: step_def set_vw)
  qed
  then obtain ys where "vw (step r op) h = Some ys" "(a, True) \<notin> set ys" by blast
  from Cons.IH [OF this] show ?case
    using Cons.prems(3) by simp
qed simp

lemma down_not_picked:
  assumes "inv r" and "vw r h = Some xs" and "(a, True) \<notin> set xs"
    and "\<forall>h'. key h' = key h \<longrightarrow> OpSet h' a True \<notin> set ops"
  shows "fst (pick (foldl step r ops) h) \<noteq> Inr a"
  using run_down [OF assms(2-4)] pick_up [OF run_inv [OF assms(1)], of ops h a] by auto

end

definition router_step :: "unicode \<Rightarrow> Router \<Rightarrow> router_op \<Rightarrow> Router" where
  "router_step u r op =
     (case op of OpPick h \<Rightarrow> snd (Pick u r h) | OpSet h a v \<Rightarrow> snd (SetBackendAlive u r h a v))"

interpretation bt: backend_table "Pick u" "SetBackendAlive u" "view u" "normalizeHost u" router_wf
  rewrites "backend_table.step (Pick u) (SetBackendAlive u) = router_step u"
  for u
proof -
  show *: "backend_table (Pick u) (SetBackendAlive u) (view u) (normalizeHost u) router_wf"
    by unfold_locales
      (simp_all add: Pick_wf SetBackendAlive_wf SetBackendAlive_view Pick_Inr)
  show "backend_table.step (Pick u) (SetBackendAlive u) = router_step u"
    by (intro ext) (simp add: backend_table.step_def [OF *] router_step_def)
qed

section \<open>Properties\<close>

text \<open>\<open>New\<close> succeeds exactly if the route table is not empty, every host is non-empty after
  normalisation and every host has an address, whatever the order of the range over the table.\<close>

theorem New_ok_iff:
  assumes "is_order ord" and "gm_inv routes"
  shows "is_ok (New u ord routes) \<longleftrightarrow>
    routes \<noteq> [] \<and> (\<forall>(host, addrs) \<in> set routes. normalizeHost u host \<noteq> [] \<and> addrs \<noteq> [])"
  using new_pools_ok_iff [of u "range_map ord routes" gm_empty gm_empty]
  by (auto simp: New_def set_range_map [OF assms] route_ok_def)

definition demo_routes :: "(string, string list) gomap" where
  "demo_routes = [(''API.internal.'', [''10.0.1.10:8080'', ''10.0.1.11:8080'']),
     (''db'', [''10.0.2.1:5432'', ''10.0.1.10:8080''])]"

lemma demo_routes_inv: "gm_inv demo_routes"
  by code_simp

lemma demo_keys_norm:
  "normalizeHost ascii_tables ''API.internal.'' = ''api.internal''"
  "normalizeHost ascii_tables ''api.internal'' = ''api.internal''"
  "normalizeHost ascii_tables ''db'' = ''db''"
  by code_simp+

theorem New_ok_iff_witness: "is_ok (New ascii_tables rev demo_routes)"
  using New_ok_iff [OF is_order_rev demo_routes_inv, of ascii_tables]
  by (auto simp: demo_routes_def demo_keys_norm)

definition demo_router :: Router where
  "demo_router =
     \<lparr>pools = [(''db'', \<lparr>backends = fresh_backends [''10.0.2.1:5432'', ''10.0.1.10:8080''], rr = 0\<rparr>),
        (''api.internal'', \<lparr>backends = fresh_backends [''10.0.1.10:8080'', ''10.0.1.11:8080''], rr = 0\<rparr>)],
      backendToHost = [(''10.0.2.1:5432'', ''db''), (''10.0.1.10:8080'', ''db''),
        (''10.0.1.11:8080'', ''api.internal'')]\<rparr>"

lemmas gm_eval = gm_get_def gm_put_def gm_empty_def gm_keys_def gm_inv_def range_map_def

lemma demo_router_New: "New ascii_tables rev demo_routes = Inr demo_router"
  by (simp add: New_def demo_routes_def demo_router_def demo_keys_norm fresh_backends_def gm_eval
      Let_def)

lemma demo_routes_keys: "keys_distinct ascii_tables demo_routes"
  by (simp add: keys_distinct_def demo_routes_def demo_keys_norm)

lemma demo_routes_len: "\<forall>e \<in> set demo_routes. length (snd e) < 2 ^ 63"
  by (simp add: demo_routes_def)

lemmas demo_built = is_order_rev demo_routes_inv demo_router_New demo_routes_keys

text \<open>C23: the table \<open>New\<close> builds. If no two hosts have the same normalised key, then for every
  range order the result is well-formed, every configured host is served by exactly its
  addresses, in order and all alive, with the counter at 0, and there are no other pools.\<close>

theorem New_builds_table:
  assumes "is_order ord" and "gm_inv routes" and "New u ord routes = Inr r"
    and "keys_distinct u routes" and "\<forall>e \<in> set routes. length (snd e) < 2 ^ 63"
  shows "router_wf r
    \<and> (\<forall>(host, addrs) \<in> set routes.
         gm_get (pools r) (normalizeHost u host) = Some \<lparr>backends = fresh_backends addrs, rr = 0\<rparr>)
    \<and> (\<forall>k \<in> set (gm_keys (pools r)). \<exists>(host, addrs) \<in> set routes. k = normalizeHost u host)"
proof -
  have b: "built u ord routes r"
    using assms by (simp add: built_def)
  then show ?thesis
    using built_router_wf [OF b assms(5)] New_pool_of_route [OF b assms(4)] New_pool_from_route [OF b]
    by (fastforce simp: gm_in_keys)
qed

theorem New_builds_table_witness:
  "router_wf demo_router \<and> gm_get (pools demo_router) (normalizeHost ascii_tables ''API.internal.'') =
     Some \<lparr>backends = fresh_backends [''10.0.1.10:8080'', ''10.0.1.11:8080''], rr = 0\<rparr>"
  using New_builds_table [OF demo_built demo_routes_len] by (simp add: demo_routes_def)

text \<open>C24: the reverse index is the whitelist for IP requests: an address has a host exactly if some
  route lists it, and then (hosts having distinct keys) the host it gets is one of those
  routes, served by a pool that contains the address.\<close>

theorem HostForBackendAddr_whitelist:
  assumes "is_order ord" and "gm_inv routes" and "New u ord routes = Inr r"
    and "keys_distinct u routes"
  shows "(HostForBackendAddr r a = None \<longleftrightarrow> (\<forall>(host, addrs) \<in> set routes. a \<notin> set addrs))
    \<and> (\<forall>h. HostForBackendAddr r a = Some h \<longrightarrow>
         (\<exists>(host, addrs) \<in> set routes. h = normalizeHost u host \<and> a \<in> set addrs \<and>
            gm_get (pools r) h = Some \<lparr>backends = fresh_backends addrs, rr = 0\<rparr>))"
proof -
  have b: "built u ord routes r"
    using assms by (simp add: built_def)
  have "HostForBackendAddr r a = None \<longleftrightarrow> (\<forall>e \<in> set routes. a \<notin> set (snd e))"
    by (auto simp: New_host_of_addr [OF b] find_None_iff built_set [OF b])
  then show ?thesis
    using New_host_of_addr_route [OF b] New_pool_of_route [OF b assms(4)] by fastforce
qed

theorem HostForBackendAddr_whitelist_witness:
  "HostForBackendAddr demo_router ''10.9.9.9:80'' = None
   \<and> (\<exists>(host, addrs) \<in> set demo_routes. ''10.0.1.10:8080'' \<in> set addrs)"
  using HostForBackendAddr_whitelist [OF demo_built, of "''10.9.9.9:80''"]
  by (simp add: demo_routes_def)

text \<open>C4: \<open>Pick\<close> refines the reference round robin. As long as the 64-bit counter does not
  overflow within the scan, it returns the first alive backend in the rotation that starts at
  the counter, reports \<open>ErrNoAliveBackends\<close> exactly if every backend of the pool is down, and
  changes nothing but the counter, which it advances by one.\<close>

theorem Pick_round_robin:
  assumes "router_wf r" and "gm_get (pools r) (normalizeHost u host) = Some p"
    and "unat (rr p) + length (backends p) \<le> 2 ^ 64"
  shows "Pick u r host =
      ((case pick_spec (backends p) (unat (rr p)) of Some a \<Rightarrow> Inr a | None \<Rightarrow> Inl err_NoAliveBackends),
       r\<lparr>pools := gm_put (normalizeHost u host) (p\<lparr>rr := rr p + 1\<rparr>) (pools r)\<rparr>)
    \<and> (fst (Pick u r host) = Inl err_NoAliveBackends \<longleftrightarrow> (\<forall>b \<in> set (backends p). \<not> up b))"
proof -
  have "length (backends p) < 2 ^ 64"
    using router_wf_pool [OF assms(1,2)] by (simp add: pool_wf_def)
  from pick_scan_spec [OF this assms(3)] show ?thesis
    using assms(2) pick_spec_None [of "backends p" "unat (rr p)"]
    by (auto simp: Pick_cases split: option.split)
qed

lemma demo_router_wf: "router_wf demo_router"
  using built_router_wf [OF _ demo_routes_len, of ascii_tables rev demo_router]
  by (simp add: built_def demo_built(1-3))

lemma demo_pool_api:
  "gm_get (pools demo_router) (normalizeHost ascii_tables ''api.internal'') =
     Some \<lparr>backends = fresh_backends [''10.0.1.10:8080'', ''10.0.1.11:8080''], rr = 0\<rparr>"
  by (simp add: demo_router_def demo_keys_norm gm_eval)

theorem Pick_round_robin_witness:
  "fst (Pick ascii_tables demo_router ''api.internal'') = Inr ''10.0.1.10:8080''"
  using Pick_round_robin [OF demo_router_wf demo_pool_api]
  by (simp add: pick_spec_def fresh_backends_def up_def)

fun picks :: "unicode \<Rightarrow> Router \<Rightarrow> string \<Rightarrow> nat \<Rightarrow> string result list" where
  "picks u r host 0 = []"
| "picks u r host (Suc m) = fst (Pick u r host) # picks u (snd (Pick u r host)) host m"

lemma pick_spec_all_up:
  assumes "bs \<noteq> []" and "\<forall>b \<in> set bs. up b"
  shows "pick_spec bs k = Some (address (bs ! (k mod length bs)))"
proof -
  have "rotate k bs = hd (rotate k bs) # tl (rotate k bs)" and "up (hd (rotate k bs))"
    using assms hd_in_set [of "rotate k bs"] by auto
  then have "find up (rotate k bs) = Some (hd (rotate k bs))"
    by (metis find.simps(2))
  then show ?thesis
    using assms(1) by (simp add: pick_spec_def hd_rotate_conv_nth)
qed

lemma picks_all_up:
  assumes "router_wf r" and "gm_get (pools r) (normalizeHost u host) = Some p"
    and "\<forall>b \<in> set (backends p). up b" and "unat (rr p) + length (backends p) + m \<le> 2 ^ 64"
  shows "picks u r host m =
    map (\<lambda>j. Inr (address (backends p ! ((unat (rr p) + j) mod length (backends p))))) [0..<m]"
  using assms
proof (induction m arbitrary: r p)
  case (Suc m)
  have ne: "backends p \<noteq> []"
    using router_wf_pool [OF Suc.prems(1,2)] by (simp add: pool_wf_def)
  have len: "length (backends p) < 2 ^ 64"
    using router_wf_pool [OF Suc.prems(1,2)] by (simp add: pool_wf_def)
  have head: "fst (Pick u r host) = Inr (address (backends p ! (unat (rr p) mod length (backends p))))"
    using Suc.prems(2-4) pick_spec_all_up [OF ne Suc.prems(3), of "unat (rr p)"]
      pick_scan_spec [OF len, of "rr p"] by (simp add: Pick_cases)
  have next_p: "gm_get (pools (snd (Pick u r host))) (normalizeHost u host) = Some (p\<lparr>rr := rr p + 1\<rparr>)"
    using Suc.prems(2) by (simp add: Pick_cases gm.get_put)
  have "0 < length (backends p)"
    using ne by simp
  with Suc.prems(4) have "unat (rr p) + 1 < 2 ^ 64"
    by linarith
  then have inc: "unat (rr p + 1) = unat (rr p) + 1"
    by (simp add: unat_word_ariths)
  have tail: "picks u (snd (Pick u r host)) host m =
      map (\<lambda>j. Inr (address (backends p ! ((unat (rr p) + 1 + j) mod length (backends p))))) [0..<m]"
    using Suc.IH [OF Pick_wf [OF Suc.prems(1)] next_p] Suc.prems(3,4) by (simp add: inc)
  have "[0..<Suc m] = 0 # map Suc [0..<m]"
    by (simp add: upt_conv_Cons map_Suc_upt del: upt_Suc)
  then show ?case
    using head tail by (simp add: comp_def del: upt_Suc)
qed simp

text \<open>Fairness. While every backend of a pool is alive, as many consecutive picks as the pool has
  backends return each backend exactly once, in rotation order.\<close>

theorem Pick_fair:
  assumes "router_wf r" and "gm_get (pools r) (normalizeHost u host) = Some p"
    and "\<forall>b \<in> set (backends p). up b" and "unat (rr p) + 2 * length (backends p) \<le> 2 ^ 64"
  shows "picks u r host (length (backends p)) = map (\<lambda>b. Inr (address b)) (rotate (unat (rr p)) (backends p))"
proof -
  have "picks u r host (length (backends p)) = map (\<lambda>b. Inr (address b))
      (map (\<lambda>j. backends p ! ((unat (rr p) + j) mod length (backends p))) [0..<length (backends p)])"
    using picks_all_up [OF assms(1-3), of "length (backends p)"] assms(4) by simp
  then show ?thesis
    by (simp only: rotate_window)
qed

theorem Pick_fair_witness:
  "picks ascii_tables demo_router ''api.internal'' 2 = [Inr ''10.0.1.10:8080'', Inr ''10.0.1.11:8080'']"
  using Pick_fair [OF demo_router_wf demo_pool_api]
  by (simp add: fresh_backends_def up_def numeral_2_eq_2 [symmetric])

text \<open>C11: once a backend has been marked dead it is not returned for its host by any later pick,
  whatever picks and state changes happen in between, until it is marked alive again. The
  addresses of the pool must be distinct.\<close>

theorem dead_backend_not_picked:
  assumes "router_wf r" and "view u r host = Some xs" and "distinct (map fst xs)"
    and "\<forall>h. normalizeHost u h = normalizeHost u host \<longrightarrow> OpSet h a True \<notin> set ops"
  shows "fst (Pick u (foldl (router_step u) (snd (SetBackendAlive u r host a False)) ops) host) \<noteq> Inr a"
proof -
  have "view u (snd (SetBackendAlive u r host a False)) host = Some (mark a False xs)"
    using assms(2) by (simp add: SetBackendAlive_view)
  from bt.down_not_picked [OF SetBackendAlive_wf [OF assms(1)] this mark_False_distinct [OF assms(3)] assms(4)]
  show ?thesis .
qed

theorem dead_backend_not_picked_witness:
  "fst (Pick ascii_tables (foldl (router_step ascii_tables)
      (snd (SetBackendAlive ascii_tables demo_router ''api.internal'' ''10.0.1.10:8080'' False))
      [OpPick ''api.internal'', OpSet ''api.internal'' ''10.0.1.11:8080'' True]) ''api.internal'')
     \<noteq> Inr ''10.0.1.10:8080''"
  by (rule dead_backend_not_picked [OF demo_router_wf,
        where xs = "[(''10.0.1.10:8080'', True), (''10.0.1.11:8080'', True)]"])
    (simp_all add: view_def demo_pool_api fresh_backends_def up_def)

text \<open>\<open>SetBackendAlive\<close> on every branch. An unknown host is \<open>ErrRouteNotFound\<close> and an address
  outside the host's pool an error, both leaving the table as it was; otherwise the first
  backend with the address gets the new state, the pool's addresses, the counter and every other
  pool stay as they are, and the result says whether the pool changed.\<close>

theorem SetBackendAlive_effect:
  assumes "router_wf r"
  shows "case gm_get (pools r) (normalizeHost u host) of
      None \<Rightarrow> SetBackendAlive u r host a v = (Inl err_RouteNotFound, r)
    | Some p \<Rightarrow>
        if a \<notin> address ` set (backends p)
        then \<not> is_ok (fst (SetBackendAlive u r host a v)) \<and> snd (SetBackendAlive u r host a v) = r
        else \<exists>bs'. SetBackendAlive u r host a v =
               (Inr (bs' \<noteq> backends p),
                r\<lparr>pools := gm_put (normalizeHost u host) (p\<lparr>backends := bs'\<rparr>) (pools r)\<rparr>)
             \<and> map (\<lambda>b. (address b, up b)) bs' = mark a v (map (\<lambda>b. (address b, up b)) (backends p))"
proof (cases "gm_get (pools r) (normalizeHost u host)")
  case None
  then show ?thesis
    by (simp add: SetBackendAlive_def)
next
  case (Some p)
  show ?thesis
  proof (cases "swap_alive a (if v then 1 else 0) (backends p)")
    case None
    moreover from this have "a \<notin> address ` set (backends p)"
      by (simp only: swap_alive_None) simp
    ultimately show ?thesis
      using Some by (simp add: SetBackendAlive_def)
  next
    case (Some q)
    obtain c bs' where q: "q = (c, bs')" by fastforce
    have "\<forall>b \<in> set (backends p). alive b = 0 \<or> alive b = 1"
      using router_wf_pool [OF assms \<open>gm_get _ _ = Some p\<close>] by (simp add: pool_wf_def)
    then have "c \<longleftrightarrow> bs' \<noteq> backends p"
      using swap_alive_changed Some q by blast
    moreover have "a \<in> address ` set (backends p)"
      using Some swap_alive_None [of a "if v then 1 else 0" "backends p"] by auto
    ultimately show ?thesis
      using \<open>gm_get _ _ = Some p\<close> Some q swap_alive_view [of a v "backends p" c bs']
      by (auto simp: SetBackendAlive_def)
  qed
qed

theorem SetBackendAlive_effect_witness:
  "fst (SetBackendAlive ascii_tables demo_router ''nosuch.host'' ''10.0.1.10:8080'' False)
     = Inl err_RouteNotFound"
proof -
  have "normalizeHost ascii_tables ''nosuch.host'' = ''nosuch.host''"
    by code_simp
  then have "gm_get (pools demo_router) (normalizeHost ascii_tables ''nosuch.host'') = None"
    by (simp add: demo_router_def gm_eval)
  then show ?thesis
    using SetBackendAlive_effect [OF demo_router_wf, of ascii_tables "''nosuch.host''" "''10.0.1.10:8080''" False]
    by simp
qed

definition wrap_router :: Router where
  "wrap_router =
     \<lparr>pools = [(''h'', \<lparr>backends = [\<lparr>address = ''a'', alive = 0\<rparr>, \<lparr>address = ''b'', alive = 0\<rparr>,
        \<lparr>address = ''c'', alive = 1\<rparr>], rr = 2 ^ 64 - 1\<rparr>)], backendToHost = []\<rparr>"

text \<open>C37: the bound in C4 is needed. When the 64-bit counter overflows within a scan and the pool
  size does not divide \<open>2^64\<close>, the scan visits a backend twice and misses another: \<open>Pick\<close> can
  report \<open>ErrNoAliveBackends\<close> for a well-formed table whose pool has an alive backend.\<close>

theorem Pick_counter_overflow:
  "router_wf wrap_router \<and> view ascii_tables wrap_router ''h'' = Some [(''a'', False), (''b'', False), (''c'', True)]
   \<and> fst (Pick ascii_tables wrap_router ''h'') = Inl err_NoAliveBackends"
proof -
  have h: "normalizeHost ascii_tables ''h'' = ''h''"
    by code_simp
  have get: "gm_get (pools wrap_router) k = (if k = ''h'' then Some \<lparr>backends = [\<lparr>address = ''a'', alive = 0\<rparr>,
      \<lparr>address = ''b'', alive = 0\<rparr>, \<lparr>address = ''c'', alive = 1\<rparr>], rr = 2 ^ 64 - 1\<rparr> else None)" for k
    by (simp add: wrap_router_def gm_eval)
  have "router_wf wrap_router"
    by (simp add: router_wf_def get) (simp add: wrap_router_def pool_wf_def gm_eval)
  moreover have "fst (Pick ascii_tables wrap_router ''h'') = Inl err_NoAliveBackends"
    by (simp add: Pick_cases h get numeral_3_eq_3)
  ultimately show ?thesis
    by (simp add: view_def h get up_def)
qed

definition dup_router :: Router where
  "dup_router =
     \<lparr>pools = [(''h'', \<lparr>backends = fresh_backends [''10.0.0.1:80'', ''10.0.0.1:80''], rr = 0\<rparr>)],
      backendToHost = [(''10.0.0.1:80'', ''h'')]\<rparr>"

text \<open>The distinctness in C6 is needed. A pool may list an address twice; marking it dead reaches
  only the first copy, and the next pick returns the dead address.\<close>

theorem duplicate_address_still_picked:
  "New ascii_tables (\<lambda>ks. ks) [(''h'', [''10.0.0.1:80'', ''10.0.0.1:80''])] = Inr dup_router
   \<and> fst (SetBackendAlive ascii_tables dup_router ''h'' ''10.0.0.1:80'' False) = Inr True
   \<and> fst (Pick ascii_tables (snd (SetBackendAlive ascii_tables dup_router ''h'' ''10.0.0.1:80'' False)) ''h'')
       = Inr ''10.0.0.1:80''"
proof -
  have h: "normalizeHost ascii_tables ''h'' = ''h''"
    by code_simp
  then show ?thesis
    by (simp add: New_def dup_router_def fresh_backends_def gm_eval Let_def SetBackendAlive_def
        Pick_cases numeral_2_eq_2)
qed

end
