(* ===== verification/Protocol.thy ===== *)
theory Protocol
  imports Go_Net Router
begin

text \<open>
  The SOCKS5 messages, \<open>internal/socks/protocol.go\<close>: the method negotiation, the CONNECT request and
  the replies, over a model of one end of a TCP connection. A connection holds the bytes the peer
  will still deliver, the error a read reports after them (end of file, an expired deadline, a
  reset), the bytes written so far, the outcome of each \<open>Write\<close> call by its number, the deadlines,
  and whether the write side or the whole connection has been closed.
\<close>

unbundle bit_operations_syntax

section \<open>Connections\<close>

record conn =
  inp :: "byte list"
  inp_err :: go_error
  outp :: "byte list"
  nwr :: nat
  wres :: "nat \<Rightarrow> (nat \<times> go_error) option"
  readDeadline :: "int option"
  writeDeadline :: "int option"
  wclosed :: bool
  closed :: bool
  remoteAddr :: string

definition io_EOF :: go_error where
  "io_EOF = errors_New ''EOF''"

definition io_ErrUnexpectedEOF :: go_error where
  "io_ErrUnexpectedEOF = errors_New ''unexpected EOF''"

text \<open>\<open>io.ReadFull\<close> into a buffer of \<open>n\<close> bytes.\<close>

definition read_full :: "nat \<Rightarrow> conn \<Rightarrow> byte list result \<times> conn" where
  "read_full n c =
     (if n \<le> length (inp c) then (Inr (take n (inp c)), c\<lparr>inp := drop n (inp c)\<rparr>)
      else (Inl (if inp c \<noteq> [] \<and> inp_err c = io_EOF then io_ErrUnexpectedEOF else inp_err c),
            c\<lparr>inp := []\<rparr>))"

text \<open>\<open>conn.Write\<close>: all bytes, or the first \<open>k\<close> of them and an error.\<close>

definition conn_write :: "byte list \<Rightarrow> conn \<Rightarrow> unit result \<times> conn" where
  "conn_write bs c =
     (case wres c (nwr c) of
        None \<Rightarrow> (Inr (), c\<lparr>outp := outp c @ bs, nwr := Suc (nwr c)\<rparr>)
      | Some (k, e) \<Rightarrow> (Inl e, c\<lparr>outp := outp c @ take k bs, nwr := Suc (nwr c)\<rparr>))"

section \<open>Constants and requests\<close>

abbreviation (input) socksVersion5 :: byte where "socksVersion5 \<equiv> 0x05"
abbreviation (input) authNoAuth :: byte where "authNoAuth \<equiv> 0x00"
abbreviation (input) authNoAcceptable :: byte where "authNoAcceptable \<equiv> 0xff"
abbreviation (input) cmdConnect :: byte where "cmdConnect \<equiv> 0x01"
abbreviation (input) atypIPv4 :: byte where "atypIPv4 \<equiv> 0x01"
abbreviation (input) atypFQDN :: byte where "atypFQDN \<equiv> 0x03"
abbreviation (input) atypIPv6 :: byte where "atypIPv6 \<equiv> 0x04"
abbreviation (input) replySuccess :: byte where "replySuccess \<equiv> 0x00"
abbreviation (input) replyGeneralFailure :: byte where "replyGeneralFailure \<equiv> 0x01"
abbreviation (input) replyHostUnreachable :: byte where "replyHostUnreachable \<equiv> 0x04"
abbreviation (input) replyCommandNotSupp :: byte where "replyCommandNotSupp \<equiv> 0x07"
abbreviation (input) replyAddrTypeNotSupp :: byte where "replyAddrTypeNotSupp \<equiv> 0x08"

record request =
  req_atyp :: byte
  req_host :: string
  req_port :: "16 word"

definition socks_normalizeHost :: "unicode \<Rightarrow> string \<Rightarrow> string" where
  "socks_normalizeHost u h = TrimSuffix (TrimSpace (ToLower (uc_lower u) h)) ''.''"

definition RouteKey :: "unicode \<Rightarrow> request \<Rightarrow> string" where
  "RouteKey u r = socks_normalizeHost u (req_host r)"

definition bytes_string :: "byte list \<Rightarrow> string" where
  "bytes_string bs = map (\<lambda>b. chr_byte (unat b)) bs"

definition string_bytes :: "string \<Rightarrow> byte list" where
  "string_bytes s = map (\<lambda>c. of_nat (ord_byte c)) s"

text \<open>\<open>binary.BigEndian.Uint16\<close> and \<open>PutUint16\<close>.\<close>

definition be16 :: "byte list \<Rightarrow> 16 word" where
  "be16 bs = push_bit 8 (ucast (bs ! 0)) OR ucast (bs ! 1)"

definition put16 :: "16 word \<Rightarrow> byte list" where
  "put16 w = [ucast (drop_bit 8 w), ucast w]"

section \<open>Operations\<close>

definition writeFailureReply :: "conn \<Rightarrow> byte \<Rightarrow> unit result \<times> conn" where
  "writeFailureReply c code = conn_write [socksVersion5, code, 0, atypIPv4, 0, 0, 0, 0, 0, 0] c"

definition handleHandshake :: "conn \<Rightarrow> unit result \<times> conn" where
  "handleHandshake c0 =
     (case read_full 2 c0 of
        (Inl e, c) \<Rightarrow> (Inl (errorf_w ''read greeting header'' e), c)
      | (Inr header, c) \<Rightarrow>
          if header ! 0 \<noteq> socksVersion5 then
            (Inl (errors_New (''unsupported socks version: '' @ dec (unat (header ! 0)))), c)
          else let nMethods = unat (header ! 1)
          in if nMethods = 0 then (Inl (errors_New ''empty auth methods list''), c)
          else (case read_full nMethods c of
             (Inl e, c) \<Rightarrow> (Inl (errorf_w ''read auth methods'' e), c)
           | (Inr methods, c) \<Rightarrow>
               let selected = (if authNoAuth \<in> set methods then authNoAuth else authNoAcceptable)
               in case conn_write [socksVersion5, selected] c of
                    (Inl e, c) \<Rightarrow> (Inl (errorf_w ''write auth select'' e), c)
                  | (Inr _, c) \<Rightarrow>
                      if selected \<noteq> authNoAuth
                      then (Inl (errors_New ''no supported authentication method''), c)
                      else (Inr (), c)))"

text \<open>Reading the destination port closes both address branches of \<open>readRequest\<close>.\<close>

definition readPort :: "byte \<Rightarrow> string \<Rightarrow> conn \<Rightarrow> request result \<times> conn" where
  "readPort a h c0 =
     (case read_full 2 c0 of
        (Inl e, c) \<Rightarrow> (Inl (errorf_w ''read destination port'' e), c)
      | (Inr portBytes, c) \<Rightarrow>
          let p = be16 portBytes
          in if p = 0 then
               (Inl (errors_New ''invalid destination port 0''), snd (writeFailureReply c replyGeneralFailure))
             else (Inr \<lparr>req_atyp = a, req_host = h, req_port = p\<rparr>, c))"

definition readRequest :: "conn \<Rightarrow> request result \<times> conn" where
  "readRequest c0 =
     (case read_full 4 c0 of
        (Inl e, c) \<Rightarrow> (Inl (errorf_w ''read request header'' e), c)
      | (Inr header, c) \<Rightarrow>
          if header ! 0 \<noteq> socksVersion5 then
            (Inl (errors_New (''unsupported request version: '' @ dec (unat (header ! 0)))), c)
          else if header ! 1 \<noteq> cmdConnect then
            (Inl (errors_New (''unsupported command: '' @ dec (unat (header ! 1)))),
             snd (writeFailureReply c replyCommandNotSupp))
          else if header ! 2 \<noteq> 0 then
            (Inl (errors_New (''invalid reserved byte: '' @ dec (unat (header ! 2)))),
             snd (writeFailureReply c replyGeneralFailure))
          else if header ! 3 = atypIPv4 then
            (case read_full 4 c of
               (Inl e, c) \<Rightarrow> (Inl (errorf_w ''read ipv4 address'' e), c)
             | (Inr addr, c) \<Rightarrow> readPort (header ! 3) (IP_String addr) c)
          else if header ! 3 = atypFQDN then
            (case read_full 1 c of
               (Inl e, c) \<Rightarrow> (Inl (errorf_w ''read fqdn length'' e), c)
             | (Inr sz, c) \<Rightarrow>
                 if sz ! 0 = 0 then
                   (Inl (errors_New ''empty fqdn''), snd (writeFailureReply c replyAddrTypeNotSupp))
                 else (case read_full (unat (sz ! 0)) c of
                    (Inl e, c) \<Rightarrow> (Inl (errorf_w ''read fqdn'' e), c)
                  | (Inr name, c) \<Rightarrow> readPort (header ! 3) (bytes_string name) c))
          else if header ! 3 = atypIPv6 then
            (Inl (errors_New ''ipv6 is not supported''), snd (writeFailureReply c replyAddrTypeNotSupp))
          else
            (Inl (errors_New (''unsupported atyp: '' @ dec (unat (header ! 3)))),
             snd (writeFailureReply c replyAddrTypeNotSupp)))"

datatype net_addr = TCP TCPAddr | OtherAddr

definition writeSuccessReply :: "conn \<Rightarrow> net_addr \<Rightarrow> unit result \<times> conn" where
  "writeSuccessReply c bindAddr =
     (case bindAddr of
        OtherAddr \<Rightarrow> writeFailureReply c replyGeneralFailure
      | TCP a \<Rightarrow>
          let ip4 = (case To4 (tcp_IP a) of Some q \<Rightarrow> q | None \<Rightarrow> [0, 0, 0, 0])
          in conn_write ([socksVersion5, replySuccess, 0, atypIPv4] @ ip4 @ put16 (of_int (tcp_Port a))) c)"

section \<open>Reading and writing\<close>

lemma read_full_append [simp]:
  "inp c = bs @ rest \<Longrightarrow> length bs = n \<Longrightarrow> read_full n c = (Inr bs, c\<lparr>inp := rest\<rparr>)"
  by (auto simp: read_full_def)

lemma read_full_Inr:
  "read_full n c = (Inr bs, c') \<longleftrightarrow>
     length bs = n \<and> inp c = bs @ inp c' \<and> c' = c\<lparr>inp := inp c'\<rparr>"
  by (auto simp: read_full_def)

lemma read_full_frame:
  "outp (snd (read_full n c)) = outp c \<and> nwr (snd (read_full n c)) = nwr c"
  by (simp add: read_full_def)

lemma be16_put16 [simp]: "be16 (put16 w) = w"
  unfolding be16_def put16_def
  by (rule bit_word_eqI)
    (auto simp: bit_or_iff bit_push_bit_iff bit_drop_bit_eq bit_unsigned_iff)

lemma put16_be16 [simp]: "put16 (be16 [a, b]) = [a, b]"
proof -
  have "\<not> bit b (8 + n)" for n
    using bit_imp_le_length [of b "8 + n"] by auto
  then show ?thesis
    unfolding be16_def put16_def
    by (auto intro!: bit_word_eqI simp: bit_or_iff bit_push_bit_iff bit_drop_bit_eq bit_unsigned_iff)
qed

lemma length_put16 [simp]: "length (put16 w) = 2"
  by (simp add: put16_def)

lemma bytes_string_bytes [simp]: "bytes_string (string_bytes s) = s"
  by (auto simp: bytes_string_def string_bytes_def unat_of_nat intro!: map_idI)

lemma string_bytes_string [simp]: "string_bytes (bytes_string bs) = bs"
  by (auto simp: bytes_string_def string_bytes_def ord_chr_byte unsigned_less [where ?'a = nat and ?'b = 8, simplified] intro!: map_idI)

lemma length_bytes_string [simp]: "length (bytes_string bs) = length bs"
  and length_string_bytes [simp]: "length (string_bytes s) = length s"
  by (simp_all add: bytes_string_def string_bytes_def)

lemma bytes_string_Nil_iff [simp]: "bytes_string bs = [] \<longleftrightarrow> bs = []"
  by (simp add: bytes_string_def)

lemma length_1: "length xs = Suc 0 \<longleftrightarrow> (\<exists>a. xs = [a])"
  and length_2: "length xs = 2 \<longleftrightarrow> (\<exists>a b. xs = [a, b])"
  by (auto simp: length_Suc_conv numeral_2_eq_2)

lemma put16_zero_iff: "be16 [a, b] = 0 \<longleftrightarrow> a = 0 \<and> b = 0"
proof
  assume "be16 [a, b] = 0"
  then have "[a, b] = put16 0"
    by (metis put16_be16)
  then show "a = 0 \<and> b = 0"
    by (simp add: put16_def)
next
  assume "a = 0 \<and> b = 0"
  then show "be16 [a, b] = 0"
    by (simp add: be16_def)
qed

section \<open>The wire format of a request\<close>

definition request_wf :: "request \<Rightarrow> bool" where
  "request_wf r \<longleftrightarrow> req_port r \<noteq> 0 \<and>
     (if req_atyp r = atypIPv4 then \<exists>q. length q = 4 \<and> req_host r = ip4_string q
      else req_atyp r = atypFQDN \<and> req_host r \<noteq> [] \<and> length (req_host r) \<le> 255)"

definition enc_address :: "request \<Rightarrow> byte list" where
  "enc_address r =
     (if req_atyp r = atypIPv4 then the (parseIPv4 (req_host r))
      else of_nat (length (req_host r)) # string_bytes (req_host r))"

definition enc_request :: "request \<Rightarrow> byte list" where
  "enc_request r = [socksVersion5, cmdConnect, 0, req_atyp r] @ enc_address r @ put16 (req_port r)"

lemma readPort_Inr:
  "readPort a h c = (Inr r, c') \<longleftrightarrow>
     req_port r \<noteq> 0 \<and> req_atyp r = a \<and> req_host r = h
     \<and> inp c = put16 (req_port r) @ inp c' \<and> c' = c\<lparr>inp := inp c'\<rparr>"
proof
  assume "readPort a h c = (Inr r, c')"
  then obtain pb where "read_full 2 c = (Inr pb, c')" and p: "be16 pb \<noteq> 0"
    and r: "r = \<lparr>req_atyp = a, req_host = h, req_port = be16 pb\<rparr>"
    by (auto simp: readPort_def Let_def split: prod.splits sum.splits if_splits)
  then have "length pb = 2" and i: "inp c = pb @ inp c'" "c' = c\<lparr>inp := inp c'\<rparr>"
    by (auto simp: read_full_Inr)
  then have "put16 (be16 pb) = pb"
    by (auto simp: length_2)
  then show "req_port r \<noteq> 0 \<and> req_atyp r = a \<and> req_host r = h
     \<and> inp c = put16 (req_port r) @ inp c' \<and> c' = c\<lparr>inp := inp c'\<rparr>"
    using p r i by simp
next
  assume *: "req_port r \<noteq> 0 \<and> req_atyp r = a \<and> req_host r = h
     \<and> inp c = put16 (req_port r) @ inp c' \<and> c' = c\<lparr>inp := inp c'\<rparr>"
  then have "read_full 2 c = (Inr (put16 (req_port r)), c')"
    by (simp add: read_full_Inr)
  then show "readPort a h c = (Inr r, c')"
    using * by (cases r) (auto simp: readPort_def)
qed

lemma readRequest_header:
  assumes "inp c = [v, cmd, rsv, a] @ rest"
  shows "readRequest c =
    (let c1 = c\<lparr>inp := rest\<rparr> in
     if v \<noteq> socksVersion5 then
       (Inl (errors_New (''unsupported request version: '' @ dec (unat v))), c1)
     else if cmd \<noteq> cmdConnect then
       (Inl (errors_New (''unsupported command: '' @ dec (unat cmd))),
        snd (writeFailureReply c1 replyCommandNotSupp))
     else if rsv \<noteq> 0 then
       (Inl (errors_New (''invalid reserved byte: '' @ dec (unat rsv))),
        snd (writeFailureReply c1 replyGeneralFailure))
     else if a = atypIPv4 then
       (case read_full 4 c1 of
          (Inl e, c) \<Rightarrow> (Inl (errorf_w ''read ipv4 address'' e), c)
        | (Inr addr, c) \<Rightarrow> readPort a (IP_String addr) c)
     else if a = atypFQDN then
       (case read_full 1 c1 of
          (Inl e, c) \<Rightarrow> (Inl (errorf_w ''read fqdn length'' e), c)
        | (Inr sz, c) \<Rightarrow>
            if sz ! 0 = 0 then
              (Inl (errors_New ''empty fqdn''), snd (writeFailureReply c replyAddrTypeNotSupp))
            else (case read_full (unat (sz ! 0)) c of
               (Inl e, c) \<Rightarrow> (Inl (errorf_w ''read fqdn'' e), c)
             | (Inr name, c) \<Rightarrow> readPort a (bytes_string name) c))
     else if a = atypIPv6 then
       (Inl (errors_New ''ipv6 is not supported''), snd (writeFailureReply c1 replyAddrTypeNotSupp))
     else
       (Inl (errors_New (''unsupported atyp: '' @ dec (unat a))),
        snd (writeFailureReply c1 replyAddrTypeNotSupp)))"
proof -
  have "read_full 4 c = (Inr [v, cmd, rsv, a], c\<lparr>inp := rest\<rparr>)"
    using assms by simp
  then show ?thesis
    by (auto simp: readRequest_def Let_def split: prod.split sum.split)
qed

lemma readRequest_short: "length (inp c) < 4 \<Longrightarrow> \<exists>e. readRequest c = (Inl e, c\<lparr>inp := []\<rparr>)"
  by (auto simp: readRequest_def read_full_def)

lemma header_cases:
  obtains "length xs < 4" | v cmd rsv a rest where "xs = [v, cmd, rsv, a] @ rest"
proof (cases "length xs < 4")
  case False
  then have "length (take 4 xs) = 4" by simp
  then obtain v cmd rsv a where "take 4 xs = [v, cmd, rsv, a]"
    unfolding length_4 by blast
  then have "xs = [v, cmd, rsv, a] @ drop 4 xs"
    by (metis append_take_drop_id)
  then show ?thesis using that(2) by blast
qed (use that(1) in blast)

lemma readRequest_decodes:
  assumes "readRequest c = (Inr r, c')"
  shows "request_wf r \<and> inp c = enc_request r @ inp c' \<and> c' = c\<lparr>inp := inp c'\<rparr>"
proof (cases "inp c" rule: header_cases)
  case 1
  then show ?thesis
    using assms readRequest_short by fastforce
next
  case (2 v cmd rsv a rest)
  note hdr = readRequest_header [OF 2, unfolded assms]
  have v: "v = socksVersion5" "cmd = cmdConnect" "rsv = 0" "a = atypIPv4 \<or> a = atypFQDN"
    using hdr by (auto simp: Let_def split: if_splits)
  from v(4) show ?thesis
  proof
    assume a: "a = atypIPv4"
    then obtain q c1 where "read_full 4 (c\<lparr>inp := rest\<rparr>) = (Inr q, c1)"
      and "readPort a (IP_String q) c1 = (Inr r, c')"
      using hdr v(1-3) by (auto simp: Let_def split: prod.splits sum.splits)
    then show ?thesis
      using 2 v a by (auto simp: read_full_Inr readPort_Inr request_wf_def enc_request_def enc_address_def
          IP_String_4 parseIPv4_ip4_string)
  next
    assume a: "a = atypFQDN"
    then obtain sz c1 name c2 where 1: "read_full 1 (c\<lparr>inp := rest\<rparr>) = (Inr sz, c1)" "sz ! 0 \<noteq> 0"
      and 3: "read_full (unat (sz ! 0)) c1 = (Inr name, c2)"
      and 4: "readPort a (bytes_string name) c2 = (Inr r, c')"
      using hdr v(1-3) by (auto simp: Let_def split: prod.splits sum.splits if_splits)
    obtain n where n: "sz = [n]"
      using 1(1) by (auto simp: read_full_Inr length_1)
    have "name \<noteq> []" "length name = unat n"
      using 1 3 n by (auto simp: read_full_Inr unat_eq_zero)
    then show ?thesis
      using 2 v a 1 3 4 n unat_byte_le [of n]
      by (auto simp: read_full_Inr readPort_Inr request_wf_def enc_request_def enc_address_def)
  qed
qed

lemma readRequest_encodes:
  assumes "request_wf r" and i: "inp c = enc_request r @ rest"
  shows "readRequest c = (Inr r, c\<lparr>inp := rest\<rparr>)"
proof -
  have hdr: "inp c = [socksVersion5, cmdConnect, 0, req_atyp r] @ (enc_address r @ put16 (req_port r) @ rest)"
    using i by (simp add: enc_request_def)
  have p: "readPort (req_atyp r) (req_host r) (c\<lparr>inp := put16 (req_port r) @ rest\<rparr>) = (Inr r, c\<lparr>inp := rest\<rparr>)"
    using assms(1) by (simp add: readPort_Inr request_wf_def)
  show ?thesis
  proof (cases "req_atyp r = atypIPv4")
    case True
    then obtain q where "length q = 4" "req_host r = ip4_string q"
      using assms(1) by (auto simp: request_wf_def)
    then show ?thesis
      using True p readRequest_header [OF hdr]
      by (simp add: enc_address_def parseIPv4_ip4_string IP_String_4)
  next
    case False
    then have h: "req_host r \<noteq> []" "length (req_host r) \<le> 255" "req_atyp r = atypFQDN"
      using assms(1) by (auto simp: request_wf_def)
    let ?n = "of_nat (length (req_host r)) :: byte"
    have n: "unat ?n = length (req_host r)"
      using h by (simp add: unat_of_nat)
    then have "?n \<noteq> 0"
      using h(1) by (metis length_0_conv unat_0)
    moreover have "read_full 1 (c\<lparr>inp := enc_address r @ put16 (req_port r) @ rest\<rparr>) =
        (Inr [?n], c\<lparr>inp := string_bytes (req_host r) @ put16 (req_port r) @ rest\<rparr>)"
      using False by (simp add: read_full_Inr enc_address_def)
    moreover have "read_full (length (req_host r)) (c\<lparr>inp := string_bytes (req_host r) @ put16 (req_port r) @ rest\<rparr>)
        = (Inr (string_bytes (req_host r)), c\<lparr>inp := put16 (req_port r) @ rest\<rparr>)"
      by (simp add: read_full_Inr)
    ultimately show ?thesis
      using h(3) p n readRequest_header [OF hdr] by (simp add: Let_def)
  qed
qed

section \<open>The greeting\<close>

lemma handleHandshake_greeting:
  assumes "inp c = [socksVersion5, of_nat (length ms)] @ ms @ rest" and "ms \<noteq> []" and "length ms \<le> 255"
  shows "handleHandshake c =
    (let sel = (if authNoAuth \<in> set ms then authNoAuth else authNoAcceptable)
     in case conn_write [socksVersion5, sel] (c\<lparr>inp := rest\<rparr>) of
          (Inl e, c) \<Rightarrow> (Inl (errorf_w ''write auth select'' e), c)
        | (Inr _, c) \<Rightarrow>
            if sel \<noteq> authNoAuth then (Inl (errors_New ''no supported authentication method''), c)
            else (Inr (), c))"
proof -
  have n: "unat (of_nat (length ms) :: byte) = length ms"
    using assms(3) by (simp add: unat_of_nat)
  have 1: "read_full 2 c = (Inr [socksVersion5, of_nat (length ms)], c\<lparr>inp := ms @ rest\<rparr>)"
    using assms(1) by simp
  have 2: "read_full (length ms) (c\<lparr>inp := ms @ rest\<rparr>) = (Inr ms, c\<lparr>inp := rest\<rparr>)"
    by simp
  show ?thesis
    unfolding handleHandshake_def 1 using assms(2) by (simp add: n 2)
qed

lemma handleHandshake_Inr:
  assumes "handleHandshake c = (Inr (), c')"
  obtains ms rest where "inp c = [socksVersion5, of_nat (length ms)] @ ms @ rest" and "ms \<noteq> []"
    and "length ms \<le> 255"
proof -
  obtain h c1 where h: "read_full 2 c = (Inr h, c1)" and v: "h ! 0 = socksVersion5" "unat (h ! 1) \<noteq> 0"
    and "\<exists>ms c2. read_full (unat (h ! 1)) c1 = (Inr ms, c2)"
    using assms by (auto simp: handleHandshake_def Let_def split: prod.splits sum.splits if_splits)
  then obtain ms c2 where ms: "read_full (unat (h ! 1)) c1 = (Inr ms, c2)" by blast
  obtain n where n: "h = [socksVersion5, n]"
    using h v(1) by (auto simp: read_full_Inr length_2)
  show ?thesis
  proof (rule that [of ms "inp c2"])
    have len: "length ms = unat n"
      using ms n by (simp add: read_full_Inr)
    then show "inp c = [socksVersion5, of_nat (length ms)] @ ms @ inp c2"
      using h ms n by (auto simp: read_full_Inr)
    show "ms \<noteq> []"
      using v(2) n len by auto
    show "length ms \<le> 255"
      using len unat_byte_le by simp
  qed
qed

section \<open>Properties\<close>

text \<open>C15: the negotiation succeeds exactly on a greeting of version 5 that offers the method
  NO AUTH among 1 to 255 methods (and a working connection); it then has consumed exactly the
  greeting and answered with the two bytes \<open>05 00\<close>.\<close>

theorem handleHandshake_accepts:
  "handleHandshake c = (Inr (), c') \<longleftrightarrow>
     (\<exists>ms rest. inp c = [socksVersion5, of_nat (length ms)] @ ms @ rest \<and> ms \<noteq> [] \<and> length ms \<le> 255
        \<and> authNoAuth \<in> set ms \<and> wres c (nwr c) = None
        \<and> c' = c\<lparr>inp := rest, outp := outp c @ [socksVersion5, authNoAuth], nwr := Suc (nwr c)\<rparr>)"
  (is "?L \<longleftrightarrow> ?R")
proof
  assume L: ?L
  then obtain ms rest where g: "inp c = [socksVersion5, of_nat (length ms)] @ ms @ rest" "ms \<noteq> []"
    "length ms \<le> 255" by (rule handleHandshake_Inr)
  with L handleHandshake_greeting [OF g] have "authNoAuth \<in> set ms \<and> wres c (nwr c) = None
      \<and> c' = c\<lparr>inp := rest, outp := outp c @ [socksVersion5, authNoAuth], nwr := Suc (nwr c)\<rparr>"
    by (auto simp: conn_write_def Let_def split: option.splits if_splits)
  with g show ?R by blast
next
  assume ?R
  then obtain ms rest where g: "inp c = [socksVersion5, of_nat (length ms)] @ ms @ rest" "ms \<noteq> []"
    "length ms \<le> 255" and "authNoAuth \<in> set ms" "wres c (nwr c) = None"
    "c' = c\<lparr>inp := rest, outp := outp c @ [socksVersion5, authNoAuth], nwr := Suc (nwr c)\<rparr>" by blast
  then show ?L
    using handleHandshake_greeting [OF g] by (simp add: conn_write_def)
qed

text \<open>C14: \<open>readRequest\<close> is the exact inverse of the wire format. It returns a request exactly if the
  input starts with the encoding of that request and the request is well-formed (a non-zero port
  and an IPv4 address or a name of 1 to 255 bytes); it then leaves the rest of the input, not a
  byte less, and writes nothing. No encoding is longer than 262 bytes.\<close>

theorem readRequest_roundtrip:
  "(readRequest c = (Inr r, c') \<longleftrightarrow>
     request_wf r \<and> (\<exists>rest. inp c = enc_request r @ rest \<and> c' = c\<lparr>inp := rest\<rparr>))
   \<and> (request_wf r \<longrightarrow> length (enc_request r) \<le> 262)"
proof -
  have "length (enc_request r) \<le> 262" if "request_wf r"
    using that by (auto simp: request_wf_def enc_request_def enc_address_def parseIPv4_ip4_string
        split: if_splits)
  then show ?thesis
    using readRequest_decodes [of c r c'] readRequest_encodes [of r c] by auto
qed

definition demo_conn :: "byte list \<Rightarrow> conn" where
  "demo_conn bs = \<lparr>inp = bs, inp_err = io_EOF, outp = [], nwr = 0, wres = (\<lambda>_. None),
     readDeadline = None, writeDeadline = None, wclosed = False, closed = False, remoteAddr = ''192.0.2.7:50000''\<rparr>"

definition demo_request :: request where
  "demo_request = \<lparr>req_atyp = 3, req_host = ''a.b'', req_port = 443\<rparr>"

lemma demo_request_wf: "request_wf demo_request"
  by (simp add: request_wf_def demo_request_def)

lemma demo_request_enc: "enc_request demo_request = [5, 1, 0, 3, 3, 97, 46, 98, 1, 187]"
  by code_simp

theorem readRequest_roundtrip_witness:
  "readRequest (demo_conn ([5, 1, 0, 3, 3, 97, 46, 98, 1, 187] @ [1, 2])) = (Inr demo_request, demo_conn [1, 2])
   \<and> length (enc_request demo_request) \<le> 262"
  using readRequest_roundtrip [of "demo_conn ([5, 1, 0, 3, 3, 97, 46, 98, 1, 187] @ [1, 2])" demo_request
      "demo_conn [1, 2]"] demo_request_wf
  by (simp add: demo_request_enc) (simp add: demo_conn_def)

definition failure_reply :: "byte \<Rightarrow> byte list" where
  "failure_reply code = [socksVersion5, code, 0, atypIPv4, 0, 0, 0, 0, 0, 0]"

definition wrote :: "conn \<Rightarrow> byte list \<Rightarrow> conn \<Rightarrow> bool" where
  "wrote c bs c' \<longleftrightarrow> nwr c' = Suc (nwr c) \<and>
     outp c' = outp c @ (case wres c (nwr c) of None \<Rightarrow> bs | Some (k, e) \<Rightarrow> take k bs)"

definition silent :: "conn \<Rightarrow> conn \<Rightarrow> bool" where
  "silent c c' \<longleftrightarrow> nwr c' = nwr c \<and> outp c' = outp c"

lemma wrote_writeFailureReply:
  "nwr c = nwr c0 \<Longrightarrow> outp c = outp c0 \<Longrightarrow> wres c = wres c0 \<Longrightarrow>
     wrote c0 (failure_reply code) (snd (writeFailureReply c code))"
  by (auto simp: wrote_def failure_reply_def writeFailureReply_def conn_write_def split: option.split)

lemma read_full_silent:
  "read_full n c = (x, c') \<Longrightarrow> nwr c' = nwr c \<and> outp c' = outp c \<and> wres c' = wres c"
  by (auto simp: read_full_def split: if_splits)

definition same_out :: "conn \<Rightarrow> conn \<Rightarrow> bool" where
  "same_out c0 c \<longleftrightarrow> nwr c = nwr c0 \<and> outp c = outp c0 \<and> wres c = wres c0"

lemma read_full_same_out: "same_out c0 c \<Longrightarrow> read_full n c = (x, c') \<Longrightarrow> same_out c0 c'"
  by (auto simp: same_out_def read_full_def split: if_splits)

lemma same_out_silent: "same_out c0 c \<Longrightarrow> silent c0 c"
  by (simp add: same_out_def silent_def)

lemma same_out_reply:
  "same_out c0 c \<Longrightarrow> wrote c0 (failure_reply code) (snd (writeFailureReply c code))"
  by (simp add: same_out_def wrote_writeFailureReply)

text \<open>The reply a request deserves, read off its bytes in the order of the protocol: \<open>None\<close> for no reply at all, which is the
  case for a valid request, for a wrong version and for a request that breaks off.\<close>

fun port_due :: "byte list \<Rightarrow> byte option" where
  "port_due (hi # lo # bs) = (if hi = 0 \<and> lo = 0 then Some 0x01 else None)"
| "port_due _ = None"

fun name_due :: "byte list \<Rightarrow> byte option" where
  "name_due (n # name) = (if n = 0 then Some 0x08 else port_due (drop (unat n) name))"
| "name_due [] = None"

fun reply_due :: "byte list \<Rightarrow> byte option" where
  "reply_due (v # cmd # rsv # a # rest) =
     (if v \<noteq> 0x05 then None
      else if cmd \<noteq> 0x01 then Some 0x07
      else if rsv \<noteq> 0 then Some 0x01
      else if a = 0x01 then port_due (drop 4 rest)
      else if a = 0x03 then name_due rest
      else Some 0x08)"
| "reply_due _ = None"

definition told :: "conn \<Rightarrow> byte option \<Rightarrow> request result \<times> conn \<Rightarrow> bool" where
  "told c due rc = (case due of
      None \<Rightarrow> silent c (snd rc)
    | Some code \<Rightarrow> \<not> is_ok (fst rc) \<and> wrote c (failure_reply code) (snd rc))"

lemma told_simps:
  "told c None rc \<longleftrightarrow> silent c (snd rc)"
  "told c (Some code) rc \<longleftrightarrow> \<not> is_ok (fst rc) \<and> wrote c (failure_reply code) (snd rc)"
  by (simp_all add: told_def)

lemma readPort_told:
  assumes "same_out c0 c"
  shows "told c0 (port_due (inp c)) (readPort a h c)"
proof (cases "inp c" rule: port_due.cases)
  case (1 hi lo bs)
  have s: "same_out c0 (c\<lparr>inp := bs\<rparr>)"
    using assms by (simp add: same_out_def)
  have z: "be16 [hi, lo] = 0 \<longleftrightarrow> hi = 0 \<and> lo = 0"
    using be16_put16 [of 0] put16_be16 [of hi lo] by (auto simp: put16_def)
  have "read_full 2 c = (Inr [hi, lo], c\<lparr>inp := bs\<rparr>)"
    using 1 by (simp add: read_full_def)
  then show ?thesis
    unfolding readPort_def 1 Let_def by (simp only:) (simp add: told_def z same_out_silent [OF s] same_out_reply [OF s])
qed (use assms in \<open>auto simp: told_def readPort_def read_full_def intro!: same_out_silent simp: same_out_def\<close>)

lemma told_short:
  "same_out c0 c \<Longrightarrow> length (inp c) < n \<Longrightarrow> \<exists>e. read_full n c = (Inl e, c\<lparr>inp := []\<rparr>) \<and> silent c0 (c\<lparr>inp := []\<rparr>)"
  by (auto simp: read_full_def same_out_def intro: same_out_silent)

lemma port_due_short: "length bs < 2 \<Longrightarrow> port_due bs = None"
  by (cases bs rule: port_due.cases) auto

lemma read_then_port_told:
  assumes "same_out c0 c"
  shows "told c0 (port_due (drop n (inp c)))
    (case read_full n c of (Inl e, c') \<Rightarrow> (Inl (wrap e), c') | (Inr bs, c') \<Rightarrow> readPort a (host bs) c')"
proof (cases "n \<le> length (inp c)")
  case True
  then have "read_full n c = (Inr (take n (inp c)), c\<lparr>inp := drop n (inp c)\<rparr>)"
    by (simp add: read_full_def)
  moreover have "same_out c0 (c\<lparr>inp := drop n (inp c)\<rparr>)"
    using assms by (simp add: same_out_def)
  ultimately show ?thesis
    using readPort_told [of c0 "c\<lparr>inp := drop n (inp c)\<rparr>" a] by simp
next
  case False
  then show ?thesis
    using told_short [OF assms, of n] by (auto simp: told_def)
qed

lemma read_name_told:
  assumes "same_out c0 c"
  shows "told c0 (name_due (inp c))
    (case read_full 1 c of
       (Inl e, c1) \<Rightarrow> (Inl (errorf_w ''read fqdn length'' e), c1)
     | (Inr sz, c1) \<Rightarrow>
         if sz ! 0 = 0 then (Inl (errors_New ''empty fqdn''), snd (writeFailureReply c1 replyAddrTypeNotSupp))
         else (case read_full (unat (sz ! 0)) c1 of
            (Inl e, c2) \<Rightarrow> (Inl (errorf_w ''read fqdn'' e), c2)
          | (Inr name, c2) \<Rightarrow> readPort a (bytes_string name) c2))"
proof (cases "inp c")
  case Nil
  then show ?thesis
    using told_short [OF assms, of 1] by (auto simp: told_def)
next
  case (Cons n name)
  have s: "same_out c0 (c\<lparr>inp := name\<rparr>)"
    using assms by (simp add: same_out_def)
  have "read_full 1 c = (Inr [n], c\<lparr>inp := name\<rparr>)"
    using Cons by (simp add: read_full_def)
  then show ?thesis
    using read_then_port_told [OF s, of "unat n" "errorf_w ''read fqdn''" a bytes_string]
    unfolding Cons by (simp only:) (simp add: told_simps same_out_reply [OF s])
qed

text \<open>C35: what a client is told about its request. \<open>readRequest\<close> writes nothing for a valid request, for a wrong version
  and for a request that breaks off before a check fails; otherwise it fails and has written one failure reply of ten bytes (or the
  part of it the connection took), whose code is that of the first failing check: 07 for a command
  other than CONNECT, 01 for a non-zero reserved byte, 08 for an unsupported address type and for an empty name, 01 for port 0.\<close>

theorem readRequest_replies:
  "case reply_due (inp c) of
     None \<Rightarrow> silent c (snd (readRequest c))
   | Some code \<Rightarrow> \<not> is_ok (fst (readRequest c)) \<and> wrote c (failure_reply code) (snd (readRequest c))"
proof -
  have "told c (reply_due (inp c)) (readRequest c)"
  proof (cases "inp c" rule: reply_due.cases)
    case (1 v cmd rsv a rest)
    have s: "same_out c (c\<lparr>inp := rest\<rparr>)"
      by (simp add: same_out_def)
    have i: "inp c = [v, cmd, rsv, a] @ rest"
      using 1 by simp
    note r = same_out_reply [OF s] same_out_silent [OF s]
    show ?thesis
      using read_name_told [OF s, of a] read_then_port_told [OF s, of 4 "errorf_w ''read ipv4 address''" a IP_String] r
      by (auto simp: readRequest_header [OF i] 1 told_simps Let_def)
  qed (auto simp: told_def readRequest_def read_full_def silent_def)
  then show ?thesis
    by (simp add: told_def)
qed

text \<open>The success reply is ten bytes, announces success, and carries the IPv4 form of the local
  address (zeros if there is none) and the port, in network byte order, so that a client decodes
  exactly the port modulo \<open>2^16\<close>.\<close>

theorem writeSuccessReply_layout:
  assumes "wres c (nwr c) = None"
  shows "\<exists>reply. writeSuccessReply c (TCP a) = (Inr (), c\<lparr>outp := outp c @ reply, nwr := Suc (nwr c)\<rparr>)
    \<and> length reply = 10 \<and> take 4 reply = [0x05, 0x00, 0x00, 0x01]
    \<and> take 4 (drop 4 reply) = (case To4 (tcp_IP a) of Some q \<Rightarrow> q | None \<Rightarrow> [0, 0, 0, 0])
    \<and> uint (be16 (drop 8 reply)) = tcp_Port a mod 2 ^ 16"
proof -
  obtain w x y z where q: "(case To4 (tcp_IP a) of Some q \<Rightarrow> q | None \<Rightarrow> [0, 0, 0, 0]) = [w, x, y, z]"
    using length_4 [of "case To4 (tcp_IP a) of Some q \<Rightarrow> q | None \<Rightarrow> [0, 0, 0, 0]"]
    by (fastforce simp: To4_def split: if_splits)
  let ?reply = "[0x05, 0x00, 0x00, 0x01] @ [w, x, y, z] @ put16 (of_int (tcp_Port a))"
  have "writeSuccessReply c (TCP a) = (Inr (), c\<lparr>outp := outp c @ ?reply, nwr := Suc (nwr c)\<rparr>)"
    using assms by (simp add: writeSuccessReply_def q conn_write_def)
  moreover have "uint (be16 (put16 (of_int (tcp_Port a)))) = tcp_Port a mod 2 ^ 16"
    by (simp add: uint_word_of_int)
  ultimately show ?thesis
    unfolding q by (intro exI [of _ ?reply]) simp
qed

theorem writeSuccessReply_layout_witness:
  "wres (demo_conn []) (nwr (demo_conn [])) = None
   \<and> (\<exists>reply. writeSuccessReply (demo_conn []) (TCP \<lparr>tcp_IP = [127, 0, 0, 1], tcp_Port = 40000\<rparr>)
        = (Inr (), (demo_conn [])\<lparr>outp := reply, nwr := 1\<rparr>) \<and> length reply = 10)"
proof -
  have w: "wres (demo_conn []) (nwr (demo_conn [])) = None"
    by (simp add: demo_conn_def)
  then show ?thesis
    using writeSuccessReply_layout [OF w, of "\<lparr>tcp_IP = [127, 0, 0, 1], tcp_Port = 40000\<rparr>"]
    by (auto simp: demo_conn_def)
qed

end
