(* ===== verification/Go_Float.thy ===== *)
theory Go_Float
  imports Go_Strings "HOL-Library.Word"
begin

text \<open>
  The floating point of the metrics page: \<open>float64\<close> of an unsigned counter, the quotient of two
  such values, and the \<open>%g\<close> verb. A non-negative \<open>float64\<close> is the rational number it denotes, a
  pair of numerator and denominator; \<open>f64_round\<close> rounds a rational to 53 significant bits, ties to
  even, and gives every value one representation. The values that occur lie between \<open>10\<^sup>-\<^sup>9\<close> and
  \<open>2\<^sup>6\<^sup>4\<close>, so subnormal numbers and overflow do not arise.
\<close>

type_synonym f64 = "nat \<times> nat"

definition round_even :: "nat \<Rightarrow> nat \<Rightarrow> nat" where
  "round_even p q =
     (let d = p div q; r = p mod q
      in if 2 * r < q then d else if q < 2 * r then d + 1 else if even d then d else d + 1)"

fun bitlen :: "nat \<Rightarrow> nat" where
  "bitlen n = (if n = 0 then 0 else Suc (bitlen (n div 2)))"

declare bitlen.simps [simp del]

text \<open>\<open>p / q\<close> scaled by \<open>2\<^sup>-\<^sup>e\<close>, and \<open>m\<close> scaled back.\<close>

definition scale_down :: "int \<Rightarrow> nat \<times> nat \<Rightarrow> nat \<times> nat" where
  "scale_down e x = (if 0 \<le> e then (fst x, snd x * 2 ^ nat e) else (fst x * 2 ^ nat (- e), snd x))"

definition f64_value :: "nat \<Rightarrow> int \<Rightarrow> f64" where
  "f64_value m e = (if 0 \<le> e then (m * 2 ^ nat e, 1) else (m, 2 ^ nat (- e)))"

definition f64_round :: "nat \<times> nat \<Rightarrow> f64" where
  "f64_round x =
     (if fst x = 0 then (0, 1)
      else let e0 = int (bitlen (fst x)) - int (bitlen (snd x)) - 53;
               y0 = scale_down e0 x;
               e = (if 2 ^ 53 \<le> fst y0 div snd y0 then e0 + 1 else e0);
               y = scale_down e x;
               m = round_even (fst y) (snd y)
           in if m = 2 ^ 53 then f64_value (2 ^ 52) (e + 1) else f64_value m e)"

definition f64_of_nat :: "nat \<Rightarrow> f64" where
  "f64_of_nat n = f64_round (n, 1)"

definition f64_div :: "f64 \<Rightarrow> f64 \<Rightarrow> f64" where
  "f64_div x y = f64_round (fst x * snd y, snd x * fst y)"

section \<open>Shortest decimal form\<close>

text \<open>\<open>pos10\<close> is the number of digits before the decimal point: \<open>10\<^bsup>d-1\<^esup> \<le> x < 10\<^sup>d\<close>. Below one it
  counts down, which takes at most \<open>fuel\<close> steps.\<close>

fun pos10_small :: "nat \<Rightarrow> nat \<times> nat \<Rightarrow> int" where
  "pos10_small 0 x = 0"
| "pos10_small (Suc fuel) x = (if snd x \<le> 10 * fst x then 0 else pos10_small fuel (10 * fst x, snd x) - 1)"

definition pos10 :: "f64 \<Rightarrow> int" where
  "pos10 x = (if snd x \<le> fst x then int (length (dec (fst x div snd x))) else pos10_small 400 x)"

definition dec_scale :: "int \<Rightarrow> nat \<times> nat \<Rightarrow> nat \<times> nat" where
  "dec_scale k x = (if 0 \<le> k then (fst x * 10 ^ nat k, snd x) else (fst x, snd x * 10 ^ nat (- k)))"

text \<open>The candidates with \<open>n\<close> digits are the two neighbours of \<open>x\<close>; those that read back as \<open>x\<close> are
  admissible, and the closer one is taken.\<close>

definition admissible :: "f64 \<Rightarrow> int \<Rightarrow> nat \<Rightarrow> bool" where
  "admissible x k c \<longleftrightarrow> f64_round (dec_scale (- k) (c, 1)) = x"

definition candidate :: "f64 \<Rightarrow> int \<Rightarrow> nat option" where
  "candidate x k =
     (let y = dec_scale k x; lo = fst y div snd y; r = fst y mod snd y
      in if admissible x k lo \<and> admissible x k (lo + 1) then
           Some (if 2 * r < snd y \<or> (2 * r = snd y \<and> even lo) then lo else lo + 1)
         else if admissible x k lo then Some lo
         else if admissible x k (lo + 1) then Some (lo + 1)
         else None)"

fun shortest :: "nat \<Rightarrow> nat \<Rightarrow> f64 \<Rightarrow> int \<Rightarrow> nat \<times> int" where
  "shortest 0 n x d = (0, 0)"
| "shortest (Suc fuel) n x d =
     (case candidate x (int n - d) of
        Some c \<Rightarrow> (c, d - int n)
      | None \<Rightarrow> shortest fuel (Suc n) x d)"

definition strip_zeros :: "string \<Rightarrow> string" where
  "strip_zeros s = rev (dropWhile (\<lambda>c. c = CHR ''0'') (rev s))"

text \<open>Digits \<open>0.d\<^sub>1d\<^sub>2\<dots> \<cdot> 10\<^bsup>dp\<^esup>\<close> of a positive value; 17 digits always suffice.\<close>

definition digits_of :: "f64 \<Rightarrow> string \<times> int" where
  "digits_of x =
     (let (c, e) = shortest 17 1 x (pos10 x); s = dec c
      in (strip_zeros s, int (length s) + e))"

section \<open>The verb \<open>%g\<close>\<close>

definition exp2 :: "int \<Rightarrow> string" where
  "exp2 e = (if e < 0 then ''-'' else ''+'') @ (let s = dec (nat \<bar>e\<bar>) in if length s < 2 then ''0'' @ s else s)"

definition fmt_e :: "string \<Rightarrow> int \<Rightarrow> string" where
  "fmt_e ds dp = [hd ds] @ (if tl ds = [] then [] else ''.'' @ tl ds) @ ''e'' @ exp2 (dp - 1)"

definition fmt_f :: "string \<Rightarrow> int \<Rightarrow> string" where
  "fmt_f ds dp =
     (if dp \<le> 0 then ''0.'' @ replicate (nat (- dp)) CHR ''0'' @ ds
      else if int (length ds) \<le> dp then ds @ replicate (nat dp - length ds) CHR ''0''
      else take (nat dp) ds @ ''.'' @ drop (nat dp) ds)"

text \<open>With the shortest precision the decision between the two forms uses precision 6: the exponent
  form is used below \<open>10\<^sup>-\<^sup>4\<close> and from \<open>10\<^sup>6\<close> on.\<close>

definition fmt_g :: "f64 \<Rightarrow> string" where
  "fmt_g x =
     (if fst x = 0 then ''0''
      else let (ds, dp) = digits_of x
           in if dp - 1 < - 4 \<or> 6 \<le> dp - 1 then fmt_e ds dp else fmt_f ds dp)"

end
