(* ===== verification/Metrics.thy ===== *)
theory Metrics
  imports Go_Net Go_Float "HOL-Library.Char_ord" "HOL-Library.List_Lexorder"
begin

text \<open>
  The metrics collector, \<open>internal/metrics/collector.go\<close>: counters in 64-bit words, maps from label
  strings to counters, and the Prometheus text page. Every operation accepts a nil collector
  (\<open>None\<close>) and then does nothing. \<open>sort.Strings\<close> orders bytes lexicographically, which is
  the order of the library's lists of characters.
\<close>

section \<open>State\<close>

record Collector =
  connectionsTotal :: "64 word"
  connectionsActive :: "64 word"
  connectionErrors :: "(string, 64 word) gomap"
  requestsTotal :: "(string, 64 word) gomap"
  requestsByBackend :: "(string, 64 word) gomap"
  routeFailures :: "(string, 64 word) gomap"
  backendDialFailed :: "(string, 64 word) gomap"
  relayBytes :: "(string, 64 word) gomap"
  healthchecks :: "(string, 64 word) gomap"
  backendsAlive :: "(string, bool) gomap"
  tcpState :: "(string, 64 word) gomap"
  handshakeCount :: "64 word"
  handshakeSumNs :: "64 word"
  dialCount :: "64 word"
  dialSumNs :: "64 word"
  sessionCount :: "64 word"
  sessionSumNs :: "64 word"

type_synonym collector = "Collector option"

definition NewCollector :: collector where
  "NewCollector = Some
     \<lparr>connectionsTotal = 0, connectionsActive = 0,
      connectionErrors = gm_empty, requestsTotal = gm_empty, requestsByBackend = gm_empty,
      routeFailures = gm_empty, backendDialFailed = gm_empty, relayBytes = gm_empty,
      healthchecks = gm_empty, backendsAlive = gm_empty, tcpState = gm_empty,
      handshakeCount = 0, handshakeSumNs = 0, dialCount = 0, dialSumNs = 0,
      sessionCount = 0, sessionSumNs = 0\<rparr>"

section \<open>Operations\<close>

text \<open>Reading a missing key gives the zero value; \<open>m[k] += n\<close>.\<close>

definition gm_val :: "(string, 64 word) gomap \<Rightarrow> string \<Rightarrow> 64 word" where
  "gm_val m k = (case gm_get m k of None \<Rightarrow> 0 | Some v \<Rightarrow> v)"

definition gm_add :: "string \<Rightarrow> 64 word \<Rightarrow> (string, 64 word) gomap \<Rightarrow> (string, 64 word) gomap" where
  "gm_add k n m = gm_put k (gm_val m k + n) m"

definition IncTCPState :: "string \<Rightarrow> collector \<Rightarrow> collector" where
  "IncTCPState state = map_option (\<lambda>c. if state = [] then c else c\<lparr>tcpState := gm_add state 1 (tcpState c)\<rparr>)"

definition IncConnectionAccepted :: "collector \<Rightarrow> collector" where
  "IncConnectionAccepted = map_option (\<lambda>c. c\<lparr>connectionsTotal := connectionsTotal c + 1,
     connectionsActive := connectionsActive c + 1\<rparr>)"

definition DecConnectionActive :: "collector \<Rightarrow> collector" where
  "DecConnectionActive = map_option (\<lambda>c. c\<lparr>connectionsActive := connectionsActive c - 1\<rparr>)"

text \<open>A \<open>time.Duration\<close> is a signed integer; its conversion to \<open>uint64\<close> keeps the low 64 bits.\<close>

definition ObserveHandshakeLatency :: "int \<Rightarrow> collector \<Rightarrow> collector" where
  "ObserveHandshakeLatency d = map_option (\<lambda>c. c\<lparr>handshakeCount := handshakeCount c + 1,
     handshakeSumNs := handshakeSumNs c + of_int d\<rparr>)"

definition IncRequest :: "string \<Rightarrow> collector \<Rightarrow> collector" where
  "IncRequest atyp = map_option (\<lambda>c. c\<lparr>requestsTotal := gm_add atyp 1 (requestsTotal c)\<rparr>)"

definition key3 :: "string \<Rightarrow> string \<Rightarrow> string \<Rightarrow> string" where
  "key3 host backend result = ''host='' @ host @ '',backend='' @ backend @ '',result='' @ result"

definition key_reason :: "string \<Rightarrow> string \<Rightarrow> string" where
  "key_reason host reason = ''host='' @ host @ '',reason='' @ reason"

definition key_alive :: "string \<Rightarrow> string \<Rightarrow> string" where
  "key_alive host backend = ''host='' @ host @ '',backend='' @ backend"

definition or_else :: "string \<Rightarrow> string \<Rightarrow> string" where
  "or_else s d = (if s = [] then d else s)"

definition IncRequestByBackend :: "string \<Rightarrow> string \<Rightarrow> string \<Rightarrow> collector \<Rightarrow> collector" where
  "IncRequestByBackend host backend result = map_option (\<lambda>c. c\<lparr>requestsByBackend :=
     gm_add (key3 (or_else host ''unknown'') (or_else backend ''none'') (or_else result ''unknown'')) 1
       (requestsByBackend c)\<rparr>)"

definition IncConnectionError :: "string \<Rightarrow> collector \<Rightarrow> collector" where
  "IncConnectionError stage = map_option (\<lambda>c. c\<lparr>connectionErrors := gm_add stage 1 (connectionErrors c)\<rparr>)"

definition IncRouteFailure :: "string \<Rightarrow> string \<Rightarrow> collector \<Rightarrow> collector" where
  "IncRouteFailure host reason = map_option (\<lambda>c. c\<lparr>routeFailures := gm_add (key_reason host reason) 1 (routeFailures c)\<rparr>)"

definition ObserveBackendDialLatency :: "int \<Rightarrow> collector \<Rightarrow> collector" where
  "ObserveBackendDialLatency d = map_option (\<lambda>c. c\<lparr>dialCount := dialCount c + 1, dialSumNs := dialSumNs c + of_int d\<rparr>)"

definition IncBackendDialFailure :: "string \<Rightarrow> string \<Rightarrow> collector \<Rightarrow> collector" where
  "IncBackendDialFailure host reason =
     map_option (\<lambda>c. c\<lparr>backendDialFailed := gm_add (key_reason host reason) 1 (backendDialFailed c)\<rparr>)"

definition AddRelayBytes :: "string \<Rightarrow> int \<Rightarrow> collector \<Rightarrow> collector" where
  "AddRelayBytes direction n =
     map_option (\<lambda>c. if n \<le> 0 then c else c\<lparr>relayBytes := gm_add direction (of_int n) (relayBytes c)\<rparr>)"

definition ObserveSessionDuration :: "int \<Rightarrow> collector \<Rightarrow> collector" where
  "ObserveSessionDuration d = map_option (\<lambda>c. c\<lparr>sessionCount := sessionCount c + 1,
     sessionSumNs := sessionSumNs c + of_int d\<rparr>)"

definition ObserveHealthcheck :: "string \<Rightarrow> string \<Rightarrow> bool \<Rightarrow> collector \<Rightarrow> collector" where
  "ObserveHealthcheck host backend isup = map_option (\<lambda>c.
     let result = (if isup then ''alive'' else ''dead'')
     in c\<lparr>healthchecks := gm_add (key3 host backend result) 1 (healthchecks c),
          backendsAlive := gm_put (key_alive host backend) isup (backendsAlive c)\<rparr>)"

section \<open>The text page\<close>

text \<open>\<open>strings.SplitN(s, "=", 2)\<close>: \<open>None\<close> if there is no separator, which leaves one part.\<close>

definition split_eq :: "string \<Rightarrow> (string \<times> string) option" where
  "split_eq s = (if CHR ''='' \<in> set s
     then Some (takeWhile (\<lambda>c. c \<noteq> CHR ''='') s, tl (dropWhile (\<lambda>c. c \<noteq> CHR ''='') s)) else None)"

fun parse_parts :: "string list \<Rightarrow> (string, string) gomap \<Rightarrow> (string, string) gomap" where
  "parse_parts [] out = out"
| "parse_parts (p # ps) out =
     (case split_eq (TrimSpace p) of
        None \<Rightarrow> parse_parts ps out
      | Some (k, v) \<Rightarrow> parse_parts ps (gm_put k v out))"

definition parseKVLabels :: "string \<Rightarrow> (string, string) gomap" where
  "parseKVLabels s = parse_parts (split_on CHR '','' s) gm_empty"

text \<open>The keys of a map in the order of a \<open>range\<close>, then sorted.\<close>

definition sorted_keys :: "key_order \<Rightarrow> (string, 'v) gomap \<Rightarrow> string list" where
  "sorted_keys ord m = sort (ord (gm_keys m))"

definition formatLabels :: "unicode \<Rightarrow> key_order \<Rightarrow> (string, string) gomap \<Rightarrow> string" where
  "formatLabels u ord m =
     join_with CHR '','' (map (\<lambda>k. k @ ''='' @ Quote (uc_print u) (the (gm_get m k))) (sorted_keys ord m))"

abbreviation newline :: string where
  "newline \<equiv> [char_of (10 :: nat)]"

definition writeCounter :: "string \<Rightarrow> f64 \<Rightarrow> string" where
  "writeCounter name v = name @ '' '' @ fmt_g v @ newline"

text \<open>The gauge may be negative.\<close>

definition writeGauge :: "string \<Rightarrow> int \<Rightarrow> string" where
  "writeGauge name v = name @ '' '' @ (if v < 0 then ''-'' else []) @ fmt_g (f64_of_nat (nat \<bar>v\<bar>)) @ newline"

definition writeLabelCounters :: "unicode \<Rightarrow> key_order \<Rightarrow> string \<Rightarrow> string \<Rightarrow> (string, 64 word) gomap \<Rightarrow> string" where
  "writeLabelCounters u ord metric label m = concat (map (\<lambda>k.
     metric @ ''{'' @ label @ ''='' @ Quote (uc_print u) k @ ''} '' @ dec (unat (gm_val m k)) @ newline)
     (sorted_keys ord m))"

definition kv_line :: "unicode \<Rightarrow> key_order \<Rightarrow> string \<Rightarrow> string \<Rightarrow> nat \<Rightarrow> string" where
  "kv_line u ord metric k n =
     metric @ ''{'' @ formatLabels u ord (parseKVLabels k) @ ''} '' @ dec n @ newline"

definition writeKVLabelCounters :: "unicode \<Rightarrow> key_order \<Rightarrow> string \<Rightarrow> (string, 64 word) gomap \<Rightarrow> string" where
  "writeKVLabelCounters u ord metric m =
     concat (map (\<lambda>k. kv_line u ord metric k (unat (gm_val m k))) (sorted_keys ord m))"

definition nsToSec :: "64 word \<Rightarrow> f64" where
  "nsToSec ns = f64_div (f64_of_nat (unat ns)) (f64_of_nat 1000000000)"

definition f64_u :: "64 word \<Rightarrow> f64" where
  "f64_u w = f64_of_nat (unat w)"

definition RenderPrometheusText :: "unicode \<Rightarrow> key_order \<Rightarrow> collector \<Rightarrow> string" where
  "RenderPrometheusText u ord m = (case m of None \<Rightarrow> [] | Some c \<Rightarrow>
     writeCounter ''zerosock_connections_total'' (f64_u (connectionsTotal c))
   @ writeGauge ''zerosock_connections_active'' (sint (connectionsActive c))
   @ writeCounter ''zerosock_handshake_latency_seconds_count'' (f64_u (handshakeCount c))
   @ writeCounter ''zerosock_handshake_latency_seconds_sum'' (nsToSec (handshakeSumNs c))
   @ writeCounter ''zerosock_backend_dial_latency_seconds_count'' (f64_u (dialCount c))
   @ writeCounter ''zerosock_backend_dial_latency_seconds_sum'' (nsToSec (dialSumNs c))
   @ writeCounter ''zerosock_session_duration_seconds_count'' (f64_u (sessionCount c))
   @ writeCounter ''zerosock_session_duration_seconds_sum'' (nsToSec (sessionSumNs c))
   @ writeLabelCounters u ord ''zerosock_tcp_state_total'' ''state'' (tcpState c)
   @ writeLabelCounters u ord ''zerosock_connection_errors_total'' ''stage'' (connectionErrors c)
   @ writeLabelCounters u ord ''zerosock_requests_total'' ''atyp'' (requestsTotal c)
   @ writeKVLabelCounters u ord ''zerosock_requests_backend_total'' (requestsByBackend c)
   @ writeKVLabelCounters u ord ''zerosock_route_failures_total'' (routeFailures c)
   @ writeKVLabelCounters u ord ''zerosock_backend_dial_failures_total'' (backendDialFailed c)
   @ writeLabelCounters u ord ''zerosock_relay_bytes_total'' ''direction'' (relayBytes c)
   @ writeKVLabelCounters u ord ''zerosock_healthchecks_total'' (healthchecks c)
   @ concat (map (\<lambda>k. kv_line u ord ''zerosock_backend_alive'' k
       (if gm_get (backendsAlive c) k = Some True then 1 else 0)) (sorted_keys ord (backendsAlive c))))"

section \<open>Counters\<close>

text \<open>What the counter maps promise, and the total that any sequence of additions leaves.\<close>

locale counters =
  fixes val :: "'m \<Rightarrow> 'k \<Rightarrow> 'n :: comm_monoid_add"
    and add :: "'k \<Rightarrow> 'n \<Rightarrow> 'm \<Rightarrow> 'm"
  assumes val_add: "val (add k n m) j = (if j = k then val m j + n else val m j)"
begin

lemma val_fold_add:
  "val (fold (\<lambda>(k, n). add k n) xs m) j = val m j + (\<Sum>(k, n) \<leftarrow> xs. if k = j then n else 0)"
proof (induction xs arbitrary: m)
  case (Cons x xs)
  then show ?case
    by (cases x) (auto simp: val_add add.assoc add.commute add.left_commute)
qed simp

end

interpretation cm: counters gm_val gm_add
  by unfold_locales (simp add: gm_val_def gm_add_def gm.get_put)

lemma gm_val_empty [simp]: "gm_val gm_empty k = 0"
  by (simp add: gm_val_def gm.get_empty)

text \<open>The calls of the program, as events, and the collector after a sequence of them.\<close>

datatype event =
    TCPState string
  | Accepted
  | Closed
  | HandshakeLatency int
  | Request string
  | RequestByBackend string string string
  | ConnectionError string
  | RouteFailure string string
  | DialLatency int
  | DialFailure string string
  | RelayBytes string int
  | SessionDuration int
  | Healthcheck string string bool

fun apply_event :: "event \<Rightarrow> collector \<Rightarrow> collector" where
  "apply_event (TCPState s) = IncTCPState s"
| "apply_event Accepted = IncConnectionAccepted"
| "apply_event Closed = DecConnectionActive"
| "apply_event (HandshakeLatency d) = ObserveHandshakeLatency d"
| "apply_event (Request a) = IncRequest a"
| "apply_event (RequestByBackend h b r) = IncRequestByBackend h b r"
| "apply_event (ConnectionError s) = IncConnectionError s"
| "apply_event (RouteFailure h r) = IncRouteFailure h r"
| "apply_event (DialLatency d) = ObserveBackendDialLatency d"
| "apply_event (DialFailure h r) = IncBackendDialFailure h r"
| "apply_event (RelayBytes d n) = AddRelayBytes d n"
| "apply_event (SessionDuration d) = ObserveSessionDuration d"
| "apply_event (Healthcheck h b a) = ObserveHealthcheck h b a"

definition observe :: "event list \<Rightarrow> collector \<Rightarrow> collector" where
  "observe es c = fold apply_event es c"

lemmas collector_ops = IncTCPState_def IncConnectionAccepted_def DecConnectionActive_def
  ObserveHandshakeLatency_def IncRequest_def IncRequestByBackend_def IncConnectionError_def
  IncRouteFailure_def ObserveBackendDialLatency_def IncBackendDialFailure_def AddRelayBytes_def
  ObserveSessionDuration_def ObserveHealthcheck_def

lemma observe_simps [simp]:
  "observe [] c = c"
  "observe (e # es) c = observe es (apply_event e c)"
  "observe (es @ es') c = observe es' (observe es c)"
  by (simp_all add: observe_def)

lemma apply_event_nil [simp]: "apply_event e None = None"
  by (cases e) (simp_all add: collector_ops)

lemma apply_event_Some: "\<exists>c'. apply_event e (Some c) = Some c'"
  by (cases e) (simp_all add: collector_ops)

text \<open>What an event contributes to each labelled counter family.\<close>

datatype family = FTCP | FErrors | FRequests | FByBackend | FRoute | FDial | FRelay | FHealth

fun family_of :: "family \<Rightarrow> Collector \<Rightarrow> (string, 64 word) gomap" where
  "family_of FTCP c = tcpState c"
| "family_of FErrors c = connectionErrors c"
| "family_of FRequests c = requestsTotal c"
| "family_of FByBackend c = requestsByBackend c"
| "family_of FRoute c = routeFailures c"
| "family_of FDial c = backendDialFailed c"
| "family_of FRelay c = relayBytes c"
| "family_of FHealth c = healthchecks c"

fun contribution :: "event \<Rightarrow> (family \<times> string \<times> int) option" where
  "contribution (TCPState s) = (if s = [] then None else Some (FTCP, s, 1))"
| "contribution (Request a) = Some (FRequests, a, 1)"
| "contribution (RequestByBackend h b r) =
     Some (FByBackend, key3 (or_else h ''unknown'') (or_else b ''none'') (or_else r ''unknown''), 1)"
| "contribution (ConnectionError s) = Some (FErrors, s, 1)"
| "contribution (RouteFailure h r) = Some (FRoute, key_reason h r, 1)"
| "contribution (DialFailure h r) = Some (FDial, key_reason h r, 1)"
| "contribution (RelayBytes d n) = (if n \<le> 0 then None else Some (FRelay, d, n))"
| "contribution (Healthcheck h b a) = Some (FHealth, key3 h b (if a then ''alive'' else ''dead''), 1)"
| "contribution _ = None"

definition tally :: "event list \<Rightarrow> family \<Rightarrow> string \<Rightarrow> int" where
  "tally es f k = (\<Sum>e \<leftarrow> es. case contribution e of None \<Rightarrow> 0 | Some (g, j, n) \<Rightarrow> if g = f \<and> j = k then n else 0)"

lemma tally_simps [simp]:
  "tally [] f k = 0"
  "tally (e # es) f k =
     (case contribution e of None \<Rightarrow> 0 | Some (g, j, n) \<Rightarrow> if g = f \<and> j = k then n else 0) + tally es f k"
  by (simp_all add: tally_def)

lemma apply_event_family:
  assumes "apply_event e (Some c) = Some c'"
  shows "gm_val (family_of f c') k = gm_val (family_of f c) k +
    (case contribution e of None \<Rightarrow> 0 | Some (g, j, n) \<Rightarrow> if g = f \<and> j = k then of_int n else 0)"
  using assms by (cases e; cases f) (auto simp: collector_ops cm.val_add Let_def split: if_splits)

lemma observe_family:
  "observe es (Some c) = Some c' \<Longrightarrow>
     gm_val (family_of f c') k = gm_val (family_of f c) k + of_int (tally es f k)"
proof (induction es arbitrary: c)
  case (Cons e es)
  obtain d where d: "apply_event e (Some c) = Some d"
    using apply_event_Some by blast
  then have "observe es (Some d) = Some c'"
    using Cons.prems by simp
  then show ?case
    using Cons.IH apply_event_family [OF d, of f k] by (simp split: option.split)
qed simp

text \<open>The unlabelled counters.\<close>

definition dur_sum :: "(event \<Rightarrow> int option) \<Rightarrow> event list \<Rightarrow> int" where
  "dur_sum sel es = (\<Sum>e \<leftarrow> es. case sel e of None \<Rightarrow> 0 | Some d \<Rightarrow> d)"

fun handshake_ns :: "event \<Rightarrow> int option" where
  "handshake_ns (HandshakeLatency d) = Some d" | "handshake_ns _ = None"
fun dial_ns :: "event \<Rightarrow> int option" where
  "dial_ns (DialLatency d) = Some d" | "dial_ns _ = None"
fun session_ns :: "event \<Rightarrow> int option" where
  "session_ns (SessionDuration d) = Some d" | "session_ns _ = None"

lemma dur_sum_simps [simp]:
  "dur_sum sel [] = 0"
  "dur_sum sel (e # es) = (case sel e of None \<Rightarrow> 0 | Some d \<Rightarrow> d) + dur_sum sel es"
  by (simp_all add: dur_sum_def)

definition moved :: "Collector \<Rightarrow> event list \<Rightarrow> Collector \<Rightarrow> bool" where
  "moved c es c' \<longleftrightarrow>
     connectionsTotal c' = connectionsTotal c + of_nat (count_list es Accepted)
   \<and> connectionsActive c' = connectionsActive c + of_nat (count_list es Accepted) - of_nat (count_list es Closed)
   \<and> handshakeSumNs c' = handshakeSumNs c + of_int (dur_sum handshake_ns es)
   \<and> dialSumNs c' = dialSumNs c + of_int (dur_sum dial_ns es)
   \<and> sessionSumNs c' = sessionSumNs c + of_int (dur_sum session_ns es)
   \<and> handshakeCount c' = handshakeCount c + of_nat (length (filter (\<lambda>e. handshake_ns e \<noteq> None) es))
   \<and> dialCount c' = dialCount c + of_nat (length (filter (\<lambda>e. dial_ns e \<noteq> None) es))
   \<and> sessionCount c' = sessionCount c + of_nat (length (filter (\<lambda>e. session_ns e \<noteq> None) es))"

lemma moved_step: "apply_event e (Some c) = Some c' \<Longrightarrow> moved c [e] c'"
  by (cases e) (auto simp: moved_def collector_ops Let_def split: if_splits)

lemma moved_trans: "moved a es b \<Longrightarrow> moved b es' c \<Longrightarrow> moved a (es @ es') c"
  unfolding moved_def dur_sum_def by clarsimp

lemma observe_moved: "observe es (Some c) = Some c' \<Longrightarrow> moved c es c'"
proof (induction es arbitrary: c)
  case Nil
  then show ?case by (simp add: moved_def)
next
  case (Cons e es)
  obtain d where d: "apply_event e (Some c) = Some d"
    using apply_event_Some by blast
  then show ?case
    using Cons.IH [of d] Cons.prems moved_trans [OF moved_step [OF d]] by fastforce
qed

text \<open>The result of the last check reported under a key of the alive gauge.\<close>

fun check_result :: "string \<Rightarrow> event \<Rightarrow> bool option \<Rightarrow> bool option" where
  "check_result k (Healthcheck h b a) old = (if key_alive h b = k then Some a else old)"
| "check_result k _ old = old"

definition last_check :: "event list \<Rightarrow> string \<Rightarrow> bool option" where
  "last_check es k = fold (check_result k) es None"

lemma apply_event_alive:
  "apply_event e (Some c) = Some c' \<Longrightarrow> gm_get (backendsAlive c') k = check_result k e (gm_get (backendsAlive c) k)"
  by (cases e) (auto simp: collector_ops Let_def gm.get_put split: if_splits)

lemma observe_alive:
  "observe es (Some c) = Some c' \<Longrightarrow> gm_get (backendsAlive c') k = fold (check_result k) es (gm_get (backendsAlive c) k)"
proof (induction es arbitrary: c)
  case (Cons e es)
  obtain d where d: "apply_event e (Some c) = Some d"
    using apply_event_Some by blast
  then show ?case
    using Cons.IH [of d] Cons.prems apply_event_alive [OF d, of k] by simp
qed simp

lemma observe_Some: "\<exists>c'. observe es (Some c) = Some c'"
proof (induction es arbitrary: c)
  case (Cons e es)
  then show ?case
    using apply_event_Some [of e c] by auto
qed simp

section \<open>Labels\<close>

lemma sort_order: "is_order ord \<Longrightarrow> sort (ord ks) = sort ks"
  by (rule properties_for_sort) (simp_all add: is_order_def)

lemma sorted_keys_order: "is_order ord \<Longrightarrow> sorted_keys ord m = sorted_keys (\<lambda>ks. ks) m"
  by (simp add: sorted_keys_def sort_order)

lemma formatLabels_order: "is_order ord \<Longrightarrow> formatLabels u ord m = formatLabels u (\<lambda>ks. ks) m"
  by (simp add: formatLabels_def sorted_keys_order [of ord])

text \<open>A label value that survives the string encoding: no comma, and no white space at its end.\<close>

definition label_ok :: "string \<Rightarrow> bool" where
  "label_ok v \<longleftrightarrow> CHR '','' \<notin> set v \<and> (v = [] \<or> graphic (last v))"

lemma split_eq_label: "CHR ''='' \<notin> set k \<Longrightarrow> split_eq (k @ ''='' @ v) = Some (k, v)"
  by (simp add: split_eq_def takeWhile_append dropWhile_append)

lemma TrimSpace_label:
  assumes "k \<noteq> []" and "graphic (hd k)" and "label_ok v"
  shows "TrimSpace (k @ ''='' @ v) = k @ ''='' @ v"
proof (rule TrimSpace_graphic_ends)
  have "graphic CHR ''=''"
    by code_simp
  then show "graphic (last (k @ ''='' @ v))"
    using assms(3) by (auto simp: label_ok_def)
qed (use assms in auto)

definition label_name :: "string \<Rightarrow> bool" where
  "label_name k \<longleftrightarrow> k \<noteq> [] \<and> graphic (hd k) \<and> CHR ''='' \<notin> set k \<and> CHR '','' \<notin> set k"

lemma parse_parts_labels:
  "\<forall>(k, v) \<in> set kvs. label_name k \<and> label_ok v \<Longrightarrow>
     parse_parts (map (\<lambda>(k, v). k @ ''='' @ v) kvs) out = fold (\<lambda>(k, v). gm_put k v) kvs out"
proof (induction kvs arbitrary: out)
  case (Cons p kvs)
  obtain k v where p: "p = (k, v)" by fastforce
  have "split_eq (TrimSpace (k @ ''='' @ v)) = Some (k, v)"
    using Cons.prems TrimSpace_label [of k v] split_eq_label [of k v] by (simp add: p label_name_def)
  then show ?case
    using Cons by (simp add: p)
qed simp

lemma parseKVLabels_join:
  assumes "kvs \<noteq> []" and "\<forall>(k, v) \<in> set kvs. label_name k \<and> label_ok v"
  shows "parseKVLabels (join_with CHR '','' (map (\<lambda>(k, v). k @ ''='' @ v) kvs)) = fold (\<lambda>(k, v). gm_put k v) kvs gm_empty"
proof -
  have "split_on CHR '','' (join_with CHR '','' (map (\<lambda>(k, v). k @ ''='' @ v) kvs)) = map (\<lambda>(k, v). k @ ''='' @ v) kvs"
    using assms by (intro split_join) (auto simp: label_name_def label_ok_def)
  then show ?thesis
    using parse_parts_labels [OF assms(2)] by (simp add: parseKVLabels_def)
qed

lemma label_names:
  "label_name ''host''" "label_name ''backend''" "label_name ''result''" "label_name ''reason''"
  by code_simp+

lemma key_joins:
  "key3 h b r = join_with CHR '','' (map (\<lambda>(k, v). k @ ''='' @ v) [(''host'', h), (''backend'', b), (''result'', r)])"
  "key_reason h r = join_with CHR '','' (map (\<lambda>(k, v). k @ ''='' @ v) [(''host'', h), (''reason'', r)])"
  "key_alive h b = join_with CHR '','' (map (\<lambda>(k, v). k @ ''='' @ v) [(''host'', h), (''backend'', b)])"
  by (simp_all add: key3_def key_reason_def key_alive_def)

lemma parse_key3:
  "label_ok h \<Longrightarrow> label_ok b \<Longrightarrow> label_ok r \<Longrightarrow>
     parseKVLabels (key3 h b r) = [(''host'', h), (''backend'', b), (''result'', r)]"
  unfolding key_joins by (subst parseKVLabels_join) (auto simp: label_names gm_put_def gm_empty_def)

lemma parse_key_reason:
  "label_ok h \<Longrightarrow> label_ok r \<Longrightarrow> parseKVLabels (key_reason h r) = [(''host'', h), (''reason'', r)]"
  unfolding key_joins by (subst parseKVLabels_join) (auto simp: label_names gm_put_def gm_empty_def)

lemma parse_key_alive:
  "label_ok h \<Longrightarrow> label_ok b \<Longrightarrow> parseKVLabels (key_alive h b) = [(''host'', h), (''backend'', b)]"
  unfolding key_joins by (subst parseKVLabels_join) (auto simp: label_names gm_put_def gm_empty_def)

lemma sort_names:
  "sort [''host'', ''backend'', ''result''] = [''backend'', ''host'', ''result'']"
  "sort [''host'', ''reason''] = [''host'', ''reason'']"
  "sort [''host'', ''backend''] = [''backend'', ''host'']"
  by code_simp+

section \<open>Properties\<close>

text \<open>C32: the collector counts exactly the events it was told of. After any sequence of calls on a new
  collector each labelled counter is the sum of the contributions to its key, the total and the active gauge count the
  accepted and the closed connections, the three latency sums and the three latency counts are those of the
  observations, all modulo \<open>2\<^sup>6\<^sup>4\<close>, and the alive gauge of a backend is the result of its last check.\<close>

theorem counters_count_events:
  "\<exists>c. observe es NewCollector = Some c
     \<and> (\<forall>f k. gm_val (family_of f c) k = of_int (tally es f k))
     \<and> connectionsTotal c = of_nat (count_list es Accepted)
     \<and> connectionsActive c = of_int (int (count_list es Accepted) - int (count_list es Closed))
     \<and> handshakeCount c = of_nat (length (filter (\<lambda>e. handshake_ns e \<noteq> None) es))
     \<and> handshakeSumNs c = of_int (dur_sum handshake_ns es)
     \<and> dialCount c = of_nat (length (filter (\<lambda>e. dial_ns e \<noteq> None) es))
     \<and> dialSumNs c = of_int (dur_sum dial_ns es)
     \<and> sessionCount c = of_nat (length (filter (\<lambda>e. session_ns e \<noteq> None) es))
     \<and> sessionSumNs c = of_int (dur_sum session_ns es)
     \<and> (\<forall>k. gm_get (backendsAlive c) k = last_check es k)"
proof -
  obtain c0 where c0: "NewCollector = Some c0"
    by (simp add: NewCollector_def)
  then obtain c where c: "observe es NewCollector = Some c"
    using observe_Some by metis
  have z0: "backendsAlive c0 = gm_empty"
    using c0 by (auto simp: NewCollector_def)
  have z: "gm_val (family_of f c0) k = 0" for f k
    using c0 by (cases f) (auto simp: NewCollector_def)
  have f: "gm_val (family_of f c) k = of_int (tally es f k)" for f k
    using observe_family [of es c0 c f k] c c0 z by simp
  have a: "gm_get (backendsAlive c) k = last_check es k" for k
    using observe_alive [of es c0 c k] c c0 z0 by (simp add: gm.get_empty last_check_def)
  have "moved c0 es c"
    using observe_moved [of es c0 c] c c0 by simp
  then show ?thesis
    using c c0 f a by (auto simp: moved_def NewCollector_def)
qed

lemma key3_inj:
  assumes "label_ok h" and "label_ok b" and "label_ok r" and "label_ok h'" and "label_ok b'" and "label_ok r'"
  shows "key3 h b r = key3 h' b' r' \<longleftrightarrow> h = h' \<and> b = b' \<and> r = r'"
proof
  assume "key3 h b r = key3 h' b' r'"
  then have "parseKVLabels (key3 h b r) = parseKVLabels (key3 h' b' r')"
    by (rule arg_cong)
  then show "h = h' \<and> b = b' \<and> r = r'"
    unfolding parse_key3 [OF assms(1-3)] parse_key3 [OF assms(4-6)] by simp
qed simp

lemma kv_line_key3:
  assumes "label_ok h" and "label_ok b" and "label_ok r" and "is_order ord"
  shows "kv_line u ord metric (key3 h b r) n =
    metric @ ''{backend='' @ Quote (uc_print u) b @ '',host='' @ Quote (uc_print u) h
      @ '',result='' @ Quote (uc_print u) r @ ''} '' @ dec n @ newline"
  using parse_key3 [OF assms(1-3)] formatLabels_order [OF assms(4)]
  by (simp add: kv_line_def) (simp add: formatLabels_def sorted_keys_def gm_keys_def sort_names gm_get_def)

lemma kv_page_line:
  assumes "is_order ord" and "gm_get m k \<noteq> None"
  shows "\<exists>before after. writeKVLabelCounters u ord metric m
    = before @ kv_line u ord metric k (unat (gm_val m k)) @ after"
proof -
  have "k \<in> set (sorted_keys ord m)"
    using assms mset_eq_setD [of "ord (gm_keys m)" "gm_keys m"] by (simp add: sorted_keys_def is_order_def gm_in_keys)
  then obtain xs ys where "sorted_keys ord m = xs @ k # ys"
    by (meson split_list)
  then show ?thesis
    by (auto simp: writeKVLabelCounters_def)
qed

lemma label_ok_or_else: "label_ok s \<Longrightarrow> label_ok d \<Longrightarrow> label_ok (or_else s d)"
  by (simp add: or_else_def)

lemma label_ok_defaults: "label_ok ''unknown''" "label_ok ''none''"
  by code_simp+

text \<open>C33: labels survive the encoding in one string. Let host, backend and result have no comma and each be empty or end in a
  printable, non-blank ASCII character, and let one request be counted for them. Then the page has the line of this counter, increased by one, with
  exactly these labels (the defaults in place of empty ones) in alphabetical order, whatever the order of map iteration; and
  the counter of every other such triple keeps its value.\<close>

theorem labels_roundtrip:
  assumes "label_ok host" and "label_ok backend" and "label_ok result" and "is_order ord"
    and h: "h = or_else host ''unknown''" and b: "b = or_else backend ''none''" and r: "r = or_else result ''unknown''"
  shows "\<exists>c'. IncRequestByBackend host backend result (Some c) = Some c'
    \<and> (\<exists>before after. writeKVLabelCounters u ord metric (requestsByBackend c') = before
         @ metric @ ''{backend='' @ Quote (uc_print u) b @ '',host='' @ Quote (uc_print u) h
         @ '',result='' @ Quote (uc_print u) r @ ''} '' @ dec (unat (gm_val (requestsByBackend c) (key3 h b r) + 1)) @ newline
         @ after)
    \<and> (\<forall>h' b' r'. label_ok h' \<and> label_ok b' \<and> label_ok r' \<and> (h', b', r') \<noteq> (h, b, r) \<longrightarrow>
         gm_val (requestsByBackend c') (key3 h' b' r') = gm_val (requestsByBackend c) (key3 h' b' r'))"
proof -
  have ok: "label_ok h" "label_ok b" "label_ok r"
    using assms(1-3) label_ok_defaults by (simp_all add: h b r label_ok_or_else)
  define m' where "m' = gm_add (key3 h b r) 1 (requestsByBackend c)"
  have inc: "IncRequestByBackend host backend result (Some c) = Some (c\<lparr>requestsByBackend := m'\<rparr>)"
    by (simp add: IncRequestByBackend_def m'_def h b r)
  have "gm_get m' (key3 h b r) \<noteq> None"
    by (simp add: m'_def gm_add_def gm.get_put)
  then obtain before after where page: "writeKVLabelCounters u ord metric m'
      = before @ kv_line u ord metric (key3 h b r) (unat (gm_val m' (key3 h b r))) @ after"
    using kv_page_line [OF assms(4)] by blast
  have "gm_val m' (key3 h b r) = gm_val (requestsByBackend c) (key3 h b r) + 1"
    by (simp add: m'_def cm.val_add)
  then have "\<exists>before after. writeKVLabelCounters u ord metric m' = before
      @ metric @ ''{backend='' @ Quote (uc_print u) b @ '',host='' @ Quote (uc_print u) h
      @ '',result='' @ Quote (uc_print u) r @ ''} '' @ dec (unat (gm_val (requestsByBackend c) (key3 h b r) + 1)) @ newline @ after"
    using page by (intro exI [of _ before] exI [of _ after]) (simp add: kv_line_key3 [OF ok assms(4)])
  moreover have "gm_val m' (key3 h' b' r') = gm_val (requestsByBackend c) (key3 h' b' r')"
    if "label_ok h'" "label_ok b'" "label_ok r'" "(h', b', r') \<noteq> (h, b, r)" for h' b' r'
    using key3_inj [OF that(1-3) ok] that(4) by (auto simp: m'_def cm.val_add)
  ultimately show ?thesis
    using inc by auto
qed

theorem labels_roundtrip_witness:
  "\<exists>c c' before after. NewCollector = Some c \<and> IncRequestByBackend ''api.internal'' [] ''timeout'' (Some c) = Some c'
     \<and> writeKVLabelCounters ascii_tables rev ''m'' (requestsByBackend c') = before
       @ ''m'' @ ''{backend='' @ Quote (uc_print ascii_tables) ''none'' @ '',host='' @ Quote (uc_print ascii_tables) ''api.internal''
       @ '',result='' @ Quote (uc_print ascii_tables) ''timeout'' @ ''} '' @ dec 1 @ newline @ after"
proof -
  obtain c where c: "NewCollector = Some c" and e: "requestsByBackend c = gm_empty"
    by (simp add: NewCollector_def)
  have ok: "label_ok ''api.internal''" "label_ok []" "label_ok ''timeout''"
    by code_simp+
  let ?k = "key3 ''api.internal'' ''none'' ''timeout''"
  have d: "''api.internal'' = or_else ''api.internal'' ''unknown''" "''none'' = or_else [] ''none''"
    "''timeout'' = or_else ''timeout'' ''unknown''"
    by (simp_all add: or_else_def)
  have n: "unat (gm_val (requestsByBackend c) ?k + 1) = 1"
    by (simp add: e)
  show ?thesis
    using labels_roundtrip [OF ok is_order_rev d, of c ascii_tables "''m''", unfolded n] c by blast
qed

text \<open>A host name with a comma breaks the encoding. The route failures of an unknown host
  chosen by a client are printed under the labels of another host, so that the page holds two samples
  of one series.\<close>

theorem comma_injects_labels:
  "key_reason ''x,host=api'' ''route_not_found'' \<noteq> key_reason ''api'' ''route_not_found''
   \<and> (\<forall>u ord n. kv_line u ord m (key_reason ''x,host=api'' ''route_not_found'') n
        = kv_line u ord m (key_reason ''api'' ''route_not_found'') n)"
proof -
  have "parseKVLabels (key_reason ''x,host=api'' ''route_not_found'') = parseKVLabels (key_reason ''api'' ''route_not_found'')"
    by code_simp
  then show ?thesis
    by (simp add: kv_line_def key_reason_def)
qed

text \<open>The page does not depend on the order in which Go ranges over the maps.\<close>

theorem page_order_independent:
  assumes "is_order ord"
  shows "RenderPrometheusText u ord c = RenderPrometheusText u (\<lambda>ks. ks) c"
  using assms
  by (simp add: RenderPrometheusText_def writeLabelCounters_def writeKVLabelCounters_def kv_line_def
      sorted_keys_order [OF assms] formatLabels_order [OF assms] split: option.split)

theorem page_order_independent_witness:
  "RenderPrometheusText ascii_tables rev NewCollector = RenderPrometheusText ascii_tables (\<lambda>ks. ks) NewCollector"
  by (rule page_order_independent [OF is_order_rev])

end
