(* ===== verification/Handler.thy ===== *)
theory Handler
  imports Protocol Metrics
begin

text \<open>
  One client session, \<open>internal/socks/handler.go\<close>: the dialer with its limit on concurrent dials, the
  loop that routes, dials and at most once asks auto-discovery, the reply, the relay and the
  metrics of every path.

  Arguments that stand for the outside: the clock at each place it is read (\<open>now_site\<close>), the network
  dial of each attempt, how \<open>io.Copy\<close> splits the byte streams, which half of the relay ends
  first, and the discoverer, the code's \<open>HostDiscoverer\<close> interface, which may replace the router. The
  dialer keeps a history \<open>rd_dials\<close> of the dials it made, and \<open>rd_rejected\<close> of the connections it closed
  because they were not TCP, which the code does not have and nothing reads.
\<close>

section \<open>State\<close>

text \<open>A buffered channel used as a semaphore: its capacity and the number of tokens in it.\<close>

type_synonym sem = "(nat \<times> nat) option"

definition sem_make :: "int \<Rightarrow> sem" where
  "sem_make n = (if n > 0 then Some (nat n, 0) else None)"

fun sem_try :: "sem \<Rightarrow> sem option" where
  "sem_try None = Some None"
| "sem_try (Some (cap, n)) = (if n < cap then Some (Some (cap, Suc n)) else None)"

fun sem_release :: "sem \<Rightarrow> sem" where
  "sem_release None = None"
| "sem_release (Some (cap, n)) = Some (cap, n - 1)"

record backend_conn =
  bk_conn :: conn
  bk_local :: net_addr

datatype dialled = TcpConn backend_conn | NotTcp conn

record routeDialer =
  rd_router :: Router
  rd_dialTimeout :: int
  rd_keepAlive :: int
  rd_inflightSem :: sem
  rd_dials :: "(string \<times> string) list"
  rd_rejected :: "conn list"

datatype now_site =
    NowSession | NowHandshake | NowReadGreeting | NowReadRequest | NowRequestDone
  | NowDialStart nat | NowDialDone nat | NowWrite | NowIdleClient | NowIdleBackend | NowEnd

record env =
  en_unicode :: unicode
  en_clock :: "now_site \<Rightarrow> int"
  en_dial :: "nat \<Rightarrow> string \<Rightarrow> int \<Rightarrow> dialled result"
  en_chunkC :: "nat \<Rightarrow> nat"
  en_chunkB :: "nat \<Rightarrow> nat"
  en_clientFirst :: bool

record 'x session =
  s_client :: conn
  s_dialer :: routeDialer
  s_metrics :: collector
  s_ext :: 'x
  s_backend :: "backend_conn option"

type_synonym 'x discover = "string \<Rightarrow> 16 word \<Rightarrow> Router \<times> 'x \<Rightarrow> bool result \<times> Router \<times> 'x"

section \<open>The dialer\<close>

definition newRouteDialer :: "Router \<Rightarrow> int \<Rightarrow> int \<Rightarrow> int \<Rightarrow> routeDialer" where
  "newRouteDialer r dialTimeout keepAlive maxInflightDials =
     \<lparr>rd_router = r, rd_dialTimeout = dialTimeout, rd_keepAlive = keepAlive,
      rd_inflightSem = sem_make maxInflightDials, rd_dials = [], rd_rejected = []\<rparr>"

definition currentRouter :: "routeDialer \<Rightarrow> Router" where
  "currentRouter d = rd_router d"

definition UpdateRouter :: "Router \<Rightarrow> routeDialer \<Rightarrow> routeDialer" where
  "UpdateRouter r d = d\<lparr>rd_router := r\<rparr>"

definition wrap_pick_error :: "unicode \<Rightarrow> string \<Rightarrow> go_error \<Rightarrow> go_error" where
  "wrap_pick_error u routeHost e =
     (let q = Quote (uc_print u) routeHost
      in if errors_Is e ErrRouteNotFound then errorf_w (''route for host '' @ q @ '' not found'') e
         else if errors_Is e ErrNoAliveBackends then errorf_w (''no alive backends for host '' @ q) e
         else errorf_w (''pick backend for host '' @ q) e)"

text \<open>The body of \<open>DialRoute\<close> while it holds a token: pick a backend of the current router, dial it.\<close>

definition dial_picked ::
  "unicode \<Rightarrow> (string \<Rightarrow> int \<Rightarrow> dialled result) \<Rightarrow> routeDialer \<Rightarrow> string
     \<Rightarrow> backend_conn result \<times> string \<times> routeDialer" where
  "dial_picked u dial d routeHost =
     (let (picked, rt) = Pick u (currentRouter d) (socks_normalizeHost u routeHost); d1 = d\<lparr>rd_router := rt\<rparr>
      in case picked of
           Inl e \<Rightarrow> (Inl (wrap_pick_error u routeHost e), [], d1)
         | Inr target \<Rightarrow>
             let d2 = d1\<lparr>rd_dials := rd_dials d1 @ [(routeHost, target)]\<rparr>
             in (case dial target (rd_dialTimeout d) of
                   Inl e \<Rightarrow> (Inl (errorf_w (''dial backend '' @ Quote (uc_print u) target @ '' for host ''
                              @ Quote (uc_print u) routeHost) e), target, d2)
                 | Inr (NotTcp c) \<Rightarrow> (Inl (errors_New (''backend connection for '' @ Quote (uc_print u) target
                              @ '' is not TCP'')), target, d2\<lparr>rd_rejected := rd_rejected d2 @ [c\<lparr>closed := True\<rparr>]\<rparr>)
                 | Inr (TcpConn b) \<Rightarrow> (Inr b, target, d2)))"

definition DialRoute ::
  "unicode \<Rightarrow> (string \<Rightarrow> int \<Rightarrow> dialled result) \<Rightarrow> routeDialer \<Rightarrow> string
     \<Rightarrow> backend_conn result \<times> string \<times> routeDialer" where
  "DialRoute u dial d routeHost =
     (case sem_try (rd_inflightSem d) of
        None \<Rightarrow> (Inl (errors_New (''dial inflight limit reached for host '' @ Quote (uc_print u) routeHost)), [], d)
      | Some s \<Rightarrow>
          let (res, target, d') = dial_picked u dial (d\<lparr>rd_inflightSem := s\<rparr>) routeHost
          in (res, target, d'\<lparr>rd_inflightSem := sem_release (rd_inflightSem d')\<rparr>))"

section \<open>Classification of errors\<close>

definition lower_msg :: "unicode \<Rightarrow> go_error \<Rightarrow> string" where
  "lower_msg u e = ToLower (uc_lower u) (err_msg e)"

definition isRSTError :: "unicode \<Rightarrow> go_error option \<Rightarrow> bool" where
  "isRSTError u err =
     (case err of None \<Rightarrow> False
      | Some e \<Rightarrow> let msg = lower_msg u e in
          Contains msg ''connection reset by peer'' \<or> Contains msg ''broken pipe''
          \<or> Contains msg ''forcibly closed by the remote host'')"

definition isIgnorableCopyError :: "unicode \<Rightarrow> go_error option \<Rightarrow> bool" where
  "isIgnorableCopyError u err =
     (case err of None \<Rightarrow> True
      | Some e \<Rightarrow> let msg = lower_msg u e in
          Contains msg ''closed network connection'' \<or> Contains msg ''broken pipe''
          \<or> Contains msg ''connection reset by peer'' \<or> Contains msg ''forcibly closed by the remote host'')"

definition classifyCloseType :: "unicode \<Rightarrow> go_error option \<Rightarrow> go_error option \<Rightarrow> string" where
  "classifyCloseType u err1 err2 = (if isRSTError u err1 \<or> isRSTError u err2 then ''rst'' else ''fin'')"

definition atypLabel :: "byte \<Rightarrow> string" where
  "atypLabel a = (if a = atypIPv4 then ''ipv4'' else if a = atypFQDN then ''fqdn'' else ''unknown'')"

definition classifyDialError :: "unicode \<Rightarrow> go_error \<Rightarrow> string" where
  "classifyDialError u e =
     (let msg = lower_msg u e
      in if Contains msg ''route for host'' then ''route_not_found''
         else if Contains msg ''no alive backends'' then ''no_alive_backends''
         else if Contains msg ''inflight limit reached'' then ''dial_limit''
         else if Contains msg ''timeout'' then ''timeout''
         else ''dial_error'')"

section \<open>The relay\<close>

text \<open>\<open>io.Copy\<close>: read a chunk, write it, until the source ends or a side fails; the end of file is no
  error. The result is the number of bytes written.\<close>

definition chunk_len :: "(nat \<Rightarrow> nat) \<Rightarrow> nat \<Rightarrow> conn \<Rightarrow> nat" where
  "chunk_len chunk i src = max 1 (min (chunk i) (length (inp src)))"

function io_copy :: "(nat \<Rightarrow> nat) \<Rightarrow> nat \<Rightarrow> conn \<Rightarrow> conn \<Rightarrow> nat \<Rightarrow> (nat \<times> go_error option) \<times> conn \<times> conn" where
  "io_copy chunk i src dst n =
     (if inp src = [] then ((n, if inp_err src = io_EOF then None else Some (inp_err src)), src, dst)
      else let k = chunk_len chunk i src;
               src' = src\<lparr>inp := drop k (inp src)\<rparr>
           in case conn_write (take k (inp src)) dst of
                (Inl e, dst') \<Rightarrow> ((n + (length (outp dst') - length (outp dst)), Some e), src', dst')
              | (Inr _, dst') \<Rightarrow> io_copy chunk (Suc i) src' dst' (n + k))"
  by auto

termination
  by (relation "measure (\<lambda>(chunk, i, src, dst, n). length (inp src))") (auto simp: chunk_len_def)

declare io_copy.simps [simp del]

definition copyHalf ::
  "(nat \<Rightarrow> nat) \<Rightarrow> string \<Rightarrow> conn \<Rightarrow> conn \<Rightarrow> collector \<Rightarrow> go_error option \<times> conn \<times> conn \<times> collector" where
  "copyHalf chunk direction src dst m =
     (let ((n, err), src', dst') = io_copy chunk 0 src dst 0
      in (err, src', dst'\<lparr>wclosed := True\<rparr>, AddRelayBytes direction (int n) m))"

definition first_error :: "unicode \<Rightarrow> go_error option list \<Rightarrow> go_error option" where
  "first_error u errs = (case find (\<lambda>e. \<not> isIgnorableCopyError u e) errs of None \<Rightarrow> None | Some e \<Rightarrow> e)"

definition relay ::
  "env \<Rightarrow> conn \<Rightarrow> conn \<Rightarrow> collector \<Rightarrow> (go_error option \<times> string) \<times> conn \<times> conn \<times> collector" where
  "relay E client backend m =
     (let (errC, client1, backend1, m1) = copyHalf (en_chunkC E) ''client_to_backend'' client backend m;
          (errB, backend2, client2, m2) = copyHalf (en_chunkB E) ''backend_to_client'' backend1 client1 m1;
          (err1, err2) = (if en_clientFirst E then (errC, errB) else (errB, errC))
      in ((first_error (en_unicode E) [err1, err2], classifyCloseType (en_unicode E) err1 err2), client2, backend2, m2))"

section \<open>Routing and dialling\<close>

text \<open>The discoverer is asked only if there is one and only in the first attempt.\<close>

definition try_discover :: "'x discover option \<Rightarrow> nat \<Rightarrow> string \<Rightarrow> 16 word \<Rightarrow> 'x session \<Rightarrow> bool \<times> 'x session" where
  "try_discover disc attempt host port s =
     (case disc of
        None \<Rightarrow> (False, s)
      | Some f \<Rightarrow>
          if attempt = 0 then
            let (res, r, x) = f host port (rd_router (s_dialer s), s_ext s)
            in (res = Inr True, s\<lparr>s_dialer := UpdateRouter r (s_dialer s), s_ext := x\<rparr>)
          else (False, s))"

definition request_addr :: "request \<Rightarrow> string" where
  "request_addr req = req_host req @ '':'' @ dec (unat (req_port req))"

text \<open>The host to route to: for an IPv4 request the host that owns the address (\<open>Inl\<close> the address if
  none does), otherwise the requested name.\<close>

definition route_of :: "unicode \<Rightarrow> Router \<Rightarrow> request \<Rightarrow> string + string" where
  "route_of u r req =
     (if req_atyp req = atypIPv4 then
        (case HostForBackendAddr r (request_addr req) of None \<Rightarrow> Inl (request_addr req) | Some h \<Rightarrow> Inr h)
      else Inr (RouteKey u req))"

definition deny_ip :: "string \<Rightarrow> 'x session \<Rightarrow> 'x session" where
  "deny_ip addr s = s\<lparr>
     s_metrics := IncConnectionError ''backend_dial'' (IncRouteFailure addr ''ip_not_in_routes'' (s_metrics s)),
     s_client := snd (writeFailureReply (s_client s) replyHostUnreachable)\<rparr>"

definition deny_dial :: "unicode \<Rightarrow> string \<Rightarrow> string \<Rightarrow> go_error \<Rightarrow> 'x session \<Rightarrow> 'x session" where
  "deny_dial u routeHost backendAddr e s =
     (let reason = classifyDialError u e
      in s\<lparr>s_metrics := IncConnectionError ''backend_dial'' (IncRequestByBackend routeHost backendAddr reason
             (IncRouteFailure routeHost reason (IncBackendDialFailure routeHost reason (s_metrics s)))),
           s_client := snd (writeFailureReply (s_client s) replyHostUnreachable)\<rparr>)"

definition dial_attempt :: "env \<Rightarrow> request \<Rightarrow> nat \<Rightarrow> string \<Rightarrow> 'x session \<Rightarrow> backend_conn result \<times> string \<times> 'x session" where
  "dial_attempt E req attempt routeHost s =
     (let m1 = IncRequest (atypLabel (req_atyp req)) (s_metrics s);
          (res, backendAddr, d) = DialRoute (en_unicode E) (en_dial E attempt) (s_dialer s) routeHost;
          m2 = ObserveBackendDialLatency (en_clock E (NowDialDone attempt) - en_clock E (NowDialStart attempt)) m1
      in (res, backendAddr, s\<lparr>s_dialer := d, s_metrics := m2\<rparr>))"

lemma try_discover_first: "try_discover disc attempt h p s = (True, s') \<Longrightarrow> attempt = 0"
  by (auto simp: try_discover_def split: option.splits if_splits)

text \<open>One iteration: \<open>Inl\<close> the result with which the loop ends, \<open>Inr\<close> the state in which it continues.\<close>

definition connect_body ::
  "env \<Rightarrow> 'x discover option \<Rightarrow> request \<Rightarrow> nat \<Rightarrow> 'x session
     \<Rightarrow> (string \<times> string \<times> backend_conn) result \<times> 'x session + 'x session" where
  "connect_body E disc req attempt s =
     (case route_of (en_unicode E) (currentRouter (s_dialer s)) req of
        Inl addr \<Rightarrow>
          (case try_discover disc attempt (req_host req) (req_port req) s of
             (True, s1) \<Rightarrow> Inr s1
           | (False, s1) \<Rightarrow>
               Inl (Inl (errors_New (''ip '' @ addr @ '' not in any route (whitelist)'')), deny_ip addr s1))
      | Inr routeHost \<Rightarrow>
          (case dial_attempt E req attempt routeHost s of
             (Inr b, backendAddr, s1) \<Rightarrow> Inl (Inr (routeHost, backendAddr, b), s1)
           | (Inl e, backendAddr, s1) \<Rightarrow>
               (case (if errors_Is e ErrRouteNotFound then try_discover disc attempt routeHost (req_port req) s1
                      else (False, s1)) of
                  (True, s2) \<Rightarrow> Inr s2
                | (False, s2) \<Rightarrow> Inl (Inl e, deny_dial (en_unicode E) routeHost backendAddr e s2))))"

lemma connect_body_continues: "connect_body E disc req attempt s = Inr s' \<Longrightarrow> attempt = 0"
  by (auto simp: connect_body_def split: sum.splits prod.splits bool.splits if_splits dest: try_discover_first)

function connect_loop ::
  "env \<Rightarrow> 'x discover option \<Rightarrow> request \<Rightarrow> nat \<Rightarrow> 'x session
     \<Rightarrow> (string \<times> string \<times> backend_conn) result \<times> 'x session" where
  "connect_loop E disc req attempt s =
     (case connect_body E disc req attempt s of
        Inl result \<Rightarrow> result
      | Inr s' \<Rightarrow> connect_loop E disc req (Suc attempt) s')"
  by pat_completeness auto

termination
  by (relation "measure (\<lambda>(E, disc, req, attempt, s). 1 - attempt)") (auto dest: connect_body_continues)

declare connect_loop.simps [simp del]

section \<open>A session\<close>

definition arm_read :: "int \<Rightarrow> int \<Rightarrow> conn \<Rightarrow> conn" where
  "arm_read timeout now c = (if timeout > 0 then c\<lparr>readDeadline := Some (now + timeout)\<rparr> else c)"

definition arm_write :: "int \<Rightarrow> int \<Rightarrow> conn \<Rightarrow> conn" where
  "arm_write timeout now c = (if timeout > 0 then c\<lparr>writeDeadline := Some (now + timeout)\<rparr> else c)"

definition arm_both :: "int \<Rightarrow> int \<Rightarrow> conn \<Rightarrow> conn" where
  "arm_both timeout now c =
     (if timeout > 0 then c\<lparr>readDeadline := Some (now + timeout), writeDeadline := Some (now + timeout)\<rparr> else c)"

definition on_metrics :: "(collector \<Rightarrow> collector) \<Rightarrow> 'x session \<Rightarrow> 'x session" where
  "on_metrics f s = s\<lparr>s_metrics := f (s_metrics s)\<rparr>"

definition close_backend :: "conn \<Rightarrow> backend_conn \<Rightarrow> backend_conn option" where
  "close_backend c b = Some (b\<lparr>bk_conn := c\<lparr>closed := True\<rparr>\<rparr>)"

text \<open>The part after a successful dial: reply, relay, final metrics. The deferred close of the backend
  connection happens on every return.\<close>

definition serve_tunnel ::
  "env \<Rightarrow> int \<Rightarrow> int \<Rightarrow> string \<Rightarrow> string \<Rightarrow> backend_conn \<Rightarrow> 'x session \<Rightarrow> go_error option \<times> 'x session" where
  "serve_tunnel E writeTimeout idleTimeout routeHost backendAddr b s =
     (let c1 = arm_write writeTimeout (en_clock E NowWrite) (s_client s)
      in case writeSuccessReply c1 (bk_local b) of
           (Inl e, c2) \<Rightarrow>
             (Some (errorf_w ''write success reply'' e),
              s\<lparr>s_client := c2, s_backend := close_backend (bk_conn b) b,
                s_metrics := IncConnectionError ''reply'' (IncRequestByBackend routeHost backendAddr ''reply_error'' (s_metrics s))\<rparr>)
         | (Inr _, c2) \<Rightarrow>
             let c3 = arm_both idleTimeout (en_clock E NowIdleClient) (c2\<lparr>writeDeadline := None\<rparr>);
                 b3 = arm_both idleTimeout (en_clock E NowIdleBackend) (bk_conn b);
                 ((relayErr, closeType), c4, b4, m) = relay E c3 b3 (IncTCPState ''established'' (s_metrics s));
                 m' = IncTCPState closeType m;
                 s' = s\<lparr>s_client := c4, s_backend := close_backend b4 b\<rparr>
             in case relayErr of
                  Some e \<Rightarrow>
                    (Some e, s'\<lparr>s_metrics := IncConnectionError ''relay''
                       (IncRequestByBackend routeHost backendAddr ''relay_error'' m')\<rparr>)
                | None \<Rightarrow>
                    (None, s'\<lparr>s_metrics := ObserveSessionDuration (en_clock E NowEnd - en_clock E NowSession)
                       (IncRequestByBackend routeHost backendAddr ''success'' m')\<rparr>))"

definition handleConnection ::
  "env \<Rightarrow> 'x discover option \<Rightarrow> int \<Rightarrow> int \<Rightarrow> int \<Rightarrow> 'x session \<Rightarrow> go_error option \<times> 'x session" where
  "handleConnection E disc readTimeout writeTimeout idleTimeout s0 =
     (case handleHandshake (arm_read readTimeout (en_clock E NowReadGreeting) (s_client s0)) of
        (Inl e, c1) \<Rightarrow> (Some e, on_metrics (IncConnectionError ''handshake'') (s0\<lparr>s_client := c1\<rparr>))
      | (Inr _, c1) \<Rightarrow>
          (let (r, c2) = readRequest (arm_read readTimeout (en_clock E NowReadRequest) c1);
               s2 = on_metrics (ObserveHandshakeLatency (en_clock E NowRequestDone - en_clock E NowHandshake))
                      (s0\<lparr>s_client := c2\<lparr>readDeadline := None\<rparr>\<rparr>)
           in case r of
                Inl e \<Rightarrow> (Some e, on_metrics (IncConnectionError ''request'') s2)
              | Inr req \<Rightarrow>
                  (case connect_loop E disc req 0 s2 of
                     (Inl e, s3) \<Rightarrow> (Some e, s3)
                   | (Inr (routeHost, backendAddr, b), s3) \<Rightarrow>
                       serve_tunnel E writeTimeout idleTimeout routeHost backendAddr b s3)))"

section \<open>The dialer keeps its promises\<close>

lemma sem_release_try: "sem_try q = Some q' \<Longrightarrow> sem_release q' = q"
  by (cases q rule: sem_try.cases) (auto split: if_splits)

lemma dial_picked_frame:
  assumes "dial_picked u dial d h = (res, a, d')"
  shows "rd_inflightSem d' = rd_inflightSem d \<and> rd_dialTimeout d' = rd_dialTimeout d
    \<and> rd_router d' = snd (Pick u (rd_router d) (socks_normalizeHost u h))
    \<and> (case fst (Pick u (rd_router d) (socks_normalizeHost u h)) of
         Inl _ \<Rightarrow> rd_dials d' = rd_dials d
       | Inr t \<Rightarrow> rd_dials d' = rd_dials d @ [(h, t)])"
  using assms
  by (auto simp: dial_picked_def currentRouter_def Let_def split: prod.splits sum.splits dialled.splits)

lemma DialRoute_frame:
  assumes "DialRoute u dial d h = (res, a, d')"
  shows "rd_inflightSem d' = rd_inflightSem d
    \<and> (d' = d \<or> rd_router d' = snd (Pick u (rd_router d) (socks_normalizeHost u h)))
    \<and> (rd_dials d' = rd_dials d
       \<or> (\<exists>t. fst (Pick u (rd_router d) (socks_normalizeHost u h)) = Inr t \<and> rd_dials d' = rd_dials d @ [(h, t)]))"
proof (cases "sem_try (rd_inflightSem d)")
  case None
  then show ?thesis
    using assms by (simp add: DialRoute_def)
next
  case (Some q)
  obtain d1 where d1: "dial_picked u dial (d\<lparr>rd_inflightSem := q\<rparr>) h = (res, a, d1)"
    and d': "d' = d1\<lparr>rd_inflightSem := sem_release (rd_inflightSem d1)\<rparr>"
    using assms Some by (auto simp: DialRoute_def split: prod.splits)
  show ?thesis
    using dial_picked_frame [OF d1] d' sem_release_try [OF Some] by (auto split: sum.splits)
qed

lemma s_dialer_frame [simp]:
  "s_dialer (deny_ip addr s) = s_dialer s" "s_ext (deny_ip addr s) = s_ext s"
  "s_dialer (deny_dial u h a e s) = s_dialer s" "s_ext (deny_dial u h a e s) = s_ext s"
  "s_dialer (on_metrics f s) = s_dialer s" "s_ext (on_metrics f s) = s_ext s" "s_client (on_metrics f s) = s_client s"
  by (simp_all add: deny_ip_def deny_dial_def on_metrics_def Let_def)

lemma serve_tunnel_frame [simp]:
  "s_dialer (snd (serve_tunnel E wt it h a b s)) = s_dialer s"
  "s_ext (snd (serve_tunnel E wt it h a b s)) = s_ext s"
  by (simp_all add: serve_tunnel_def Let_def split: prod.split sum.split option.split)

lemma dial_attempt_dialer:
  "dial_attempt E req n h s = (res, a, s') \<Longrightarrow>
     DialRoute (en_unicode E) (en_dial E n) (s_dialer s) h = (res, a, s_dialer s') \<and> s_ext s' = s_ext s
     \<and> s_client s' = s_client s \<and> s_backend s' = s_backend s"
  by (auto simp: dial_attempt_def Let_def split: prod.splits)

text \<open>How an iteration ends, how it continues, and how a session ends.\<close>

lemma connect_body_Inl [consumes 1, case_names ip dialled failed]:
  assumes "connect_body E disc req n s = Inl (r, s')"
  obtains (ip) addr s1 where "route_of (en_unicode E) (rd_router (s_dialer s)) req = Inl addr"
      "try_discover disc n (req_host req) (req_port req) s = (False, s1)"
      "r = Inl (errors_New (''ip '' @ addr @ '' not in any route (whitelist)''))" "s' = deny_ip addr s1"
  | (dialled) h a b where "route_of (en_unicode E) (rd_router (s_dialer s)) req = Inr h"
      "dial_attempt E req n h s = (Inr b, a, s')" "r = Inr (h, a, b)"
  | (failed) h a e s1 s2 where "route_of (en_unicode E) (rd_router (s_dialer s)) req = Inr h"
      "dial_attempt E req n h s = (Inl e, a, s1)"
      "if errors_Is e ErrRouteNotFound then try_discover disc n h (req_port req) s1 = (False, s2) else s2 = s1"
      "r = Inl e" "s' = deny_dial (en_unicode E) h a e s2"
  using assms by (auto simp: connect_body_def currentRouter_def split: sum.splits prod.splits bool.splits if_splits)

lemma connect_body_Inr [consumes 1, case_names ip host]:
  assumes "connect_body E disc req n s = Inr s'"
  obtains (ip) addr where "route_of (en_unicode E) (rd_router (s_dialer s)) req = Inl addr"
      "try_discover disc n (req_host req) (req_port req) s = (True, s')"
  | (host) h a e s1 where "route_of (en_unicode E) (rd_router (s_dialer s)) req = Inr h"
      "dial_attempt E req n h s = (Inl e, a, s1)" "errors_Is e ErrRouteNotFound"
      "try_discover disc n h (req_port req) s1 = (True, s')"
  using assms by (auto simp: connect_body_def currentRouter_def split: sum.splits prod.splits bool.splits if_splits)

definition after_request :: "env \<Rightarrow> conn \<Rightarrow> 'x session \<Rightarrow> 'x session" where
  "after_request E c s = on_metrics (ObserveHandshakeLatency (en_clock E NowRequestDone - en_clock E NowHandshake))
     (s\<lparr>s_client := c\<lparr>readDeadline := None\<rparr>\<rparr>)"

lemma after_request_simps [simp]:
  "s_dialer (after_request E c s) = s_dialer s" "s_ext (after_request E c s) = s_ext s"
  "s_client (after_request E c s) = c\<lparr>readDeadline := None\<rparr>"
  by (simp_all add: after_request_def)

lemma handleConnection_cases [consumes 1, case_names greeting request denied tunnel]:
  assumes "handleConnection E disc rt wt it s = (r, s')"
  obtains (greeting) e c where "handleHandshake (arm_read rt (en_clock E NowReadGreeting) (s_client s)) = (Inl e, c)"
      "r = Some e" "s' = on_metrics (IncConnectionError ''handshake'') (s\<lparr>s_client := c\<rparr>)"
  | (request) c1 e c where "handleHandshake (arm_read rt (en_clock E NowReadGreeting) (s_client s)) = (Inr (), c1)"
      "readRequest (arm_read rt (en_clock E NowReadRequest) c1) = (Inl e, c)"
      "r = Some e" "s' = on_metrics (IncConnectionError ''request'') (after_request E c s)"
  | (denied) c1 req c e where "handleHandshake (arm_read rt (en_clock E NowReadGreeting) (s_client s)) = (Inr (), c1)"
      "readRequest (arm_read rt (en_clock E NowReadRequest) c1) = (Inr req, c)"
      "connect_loop E disc req 0 (after_request E c s) = (Inl e, s')" "r = Some e"
  | (tunnel) c1 req c h a b s1 where "handleHandshake (arm_read rt (en_clock E NowReadGreeting) (s_client s)) = (Inr (), c1)"
      "readRequest (arm_read rt (en_clock E NowReadRequest) c1) = (Inr req, c)"
      "connect_loop E disc req 0 (after_request E c s) = (Inr (h, a, b), s1)"
      "serve_tunnel E wt it h a b s1 = (r, s')"
  using assms by (auto simp: handleConnection_def Let_def after_request_def split: sum.splits prod.splits)

text \<open>The loop runs at most twice.\<close>

lemma connect_loop_rule [consumes 1]:
  assumes "P 0 s"
    and "\<And>s1. P 0 s \<Longrightarrow> connect_body E disc req 0 s = Inr s1 \<Longrightarrow> P (Suc 0) s1"
    and "\<And>n s r s'. P n s \<Longrightarrow> connect_body E disc req n s = Inl (r, s') \<Longrightarrow> Q r s'"
    and "connect_loop E disc req 0 s = (r, s')"
  shows "Q r s'"
proof (cases "connect_body E disc req 0 s")
  case (Inl res)
  then show ?thesis
    using assms(1,3,4) by (cases res) (auto simp: connect_loop.simps)
next
  case (Inr s1)
  then obtain res where 1: "connect_body E disc req (Suc 0) s1 = Inl res"
    using connect_body_continues by (cases "connect_body E disc req (Suc 0) s1") fastforce+
  then have "res = (r, s')"
    using Inr assms(4) by (simp add: connect_loop.simps [of _ _ _ 0] connect_loop.simps [of _ _ _ "Suc 0"])
  then show ?thesis
    using assms(1,2,3) Inr 1 by blast
qed

text \<open>
  An invariant of the dialer and of the discoverer's state that dialling and discovery keep is kept by a
  whole session.
\<close>

locale session_invariant =
  fixes E :: env and disc :: "'x discover option" and I :: "routeDialer \<Rightarrow> 'x \<Rightarrow> bool"
  assumes dial_keeps: "I d x \<Longrightarrow> DialRoute (en_unicode E) (en_dial E n) d h = (res, a, d') \<Longrightarrow> I d' x"
    and discover_keeps: "disc = Some f \<Longrightarrow> I d x \<Longrightarrow> f h p (rd_router d, x) = (r, rt, x') \<Longrightarrow> I (UpdateRouter rt d) x'"
begin

lemma try_keeps:
  "I (s_dialer s) (s_ext s) \<Longrightarrow> try_discover disc n h p s = (b, s') \<Longrightarrow> I (s_dialer s') (s_ext s')"
  by (auto simp: try_discover_def Let_def split: option.splits if_splits prod.splits intro: discover_keeps)

lemma attempt_keeps:
  "I (s_dialer s) (s_ext s) \<Longrightarrow> dial_attempt E req n h s = (res, a, s') \<Longrightarrow> I (s_dialer s') (s_ext s')"
  using dial_keeps dial_attempt_dialer by metis

lemma body_keeps:
  assumes "I (s_dialer s) (s_ext s)"
  shows "connect_body E disc req n s = Inl (r, s') \<Longrightarrow> I (s_dialer s') (s_ext s')"
    and "connect_body E disc req n s = Inr s' \<Longrightarrow> I (s_dialer s') (s_ext s')"
proof -
  show "I (s_dialer s') (s_ext s')" if "connect_body E disc req n s = Inl (r, s')"
    using that
  proof (cases rule: connect_body_Inl)
    case (ip addr s1)
    then show ?thesis
      using try_keeps [OF assms ip(2)] by simp
  next
    case (dialled h a b)
    then show ?thesis
      using attempt_keeps [OF assms dialled(2)] by simp
  next
    case (failed h a e s1 s2)
    then show ?thesis
      using attempt_keeps [OF assms failed(2)] try_keeps [of s1 n h "req_port req" False s2]
      by (simp split: if_splits)
  qed
  show "I (s_dialer s') (s_ext s')" if "connect_body E disc req n s = Inr s'"
    using that
  proof (cases rule: connect_body_Inr)
    case (ip addr)
    then show ?thesis
      using try_keeps [OF assms] by simp
  next
    case (host h a e s1)
    then show ?thesis
      using try_keeps [OF attempt_keeps [OF assms host(2)]] by simp
  qed
qed

lemma connect_keeps:
  assumes "I (s_dialer s) (s_ext s)" and "connect_loop E disc req 0 s = (r, s')"
  shows "I (s_dialer s') (s_ext s')"
  using connect_loop_rule [of "\<lambda>_ s. I (s_dialer s) (s_ext s)" s E disc req "\<lambda>_ s. I (s_dialer s) (s_ext s)" r s']
    body_keeps assms by blast

lemma session_keeps:
  assumes "I (s_dialer s) (s_ext s)" and "handleConnection E disc rt wt it s = (r, s')"
  shows "I (s_dialer s') (s_ext s')"
  using assms(2)
proof (cases rule: handleConnection_cases)
  case (denied c1 req c e)
  then show ?thesis
    using connect_keeps [OF _ denied(3)] assms(1) by simp
next
  case (tunnel c1 req c h a b s1)
  then show ?thesis
    using connect_keeps [OF _ tunnel(3)] serve_tunnel_frame [of E wt it h a b s1] assms(1) by simp
qed (use assms(1) in auto)

end

text \<open>Two invariants of every session: the tokens of the dial limit, and the set of addresses dialled.\<close>

interpretation tokens: session_invariant E disc "\<lambda>d x. rd_inflightSem d = q" for E disc q
  by unfold_locales (auto simp: UpdateRouter_def dest: DialRoute_frame)

definition confined :: "unicode \<Rightarrow> string set \<Rightarrow> Router \<Rightarrow> bool" where
  "confined u W r \<longleftrightarrow> router_wf r \<and> (\<forall>h xs. view u r h = Some xs \<longrightarrow> fst ` set xs \<subseteq> W)"

definition disc_confined :: "unicode \<Rightarrow> string set \<Rightarrow> 'x discover option \<Rightarrow> bool" where
  "disc_confined u W disc \<longleftrightarrow>
     (\<forall>f h p r x res r' x'. disc = Some f \<longrightarrow> confined u W r \<longrightarrow> f h p (r, x) = (res, r', x') \<longrightarrow> confined u W r')"

lemma disc_confinedD:
  "disc_confined u W (Some f) \<Longrightarrow> confined u W r \<Longrightarrow> f h p (r, x) = (res, r', x') \<Longrightarrow> confined u W r'"
  unfolding disc_confined_def by blast

lemma confined_Pick: "confined u W r \<Longrightarrow> confined u W (snd (Pick u r h))"
  by (simp add: confined_def Pick_wf)

lemma confined_target: "confined u W r \<Longrightarrow> fst (Pick u r h) = Inr t \<Longrightarrow> t \<in> W"
  using Pick_Inr [of r u h t] by (fastforce simp: confined_def)

definition dials_in :: "unicode \<Rightarrow> string set \<Rightarrow> string set \<Rightarrow> routeDialer \<Rightarrow> bool" where
  "dials_in u W D d \<longleftrightarrow> confined u W (rd_router d) \<and> snd ` set (rd_dials d) \<subseteq> D \<union> W"

lemma dials_in_DialRoute:
  assumes "dials_in u W D d" and "DialRoute u dial d h = (res, a, d')"
  shows "dials_in u W D d'"
proof -
  have c: "confined u W (rd_router d)"
    using assms(1) by (simp add: dials_in_def)
  have "confined u W (rd_router d')"
    using DialRoute_frame [OF assms(2)] c confined_Pick [OF c] by metis
  moreover have "snd ` set (rd_dials d) \<subseteq> D \<union> W"
    using assms(1) by (simp add: dials_in_def)
  then have "snd ` set (rd_dials d') \<subseteq> D \<union> W"
    using DialRoute_frame [OF assms(2)] confined_target [OF c] by fastforce
  ultimately show ?thesis
    by (simp add: dials_in_def)
qed

interpretation whitelist: session_invariant E disc
    "\<lambda>d x. disc_confined (en_unicode E) W disc \<longrightarrow> dials_in (en_unicode E) W D d" for E disc W D
proof unfold_locales
  fix d x n h res a d'
  assume "disc_confined (en_unicode E) W disc \<longrightarrow> dials_in (en_unicode E) W D d"
    and "DialRoute (en_unicode E) (en_dial E n) d h = (res, a, d')"
  then show "disc_confined (en_unicode E) W disc \<longrightarrow> dials_in (en_unicode E) W D d'"
    using dials_in_DialRoute by blast
next
  fix f d x h p r rt x'
  assume "disc = Some f" and "disc_confined (en_unicode E) W disc \<longrightarrow> dials_in (en_unicode E) W D d"
    and "f h p (rd_router d, x) = (r, rt, x')"
  then show "disc_confined (en_unicode E) W disc \<longrightarrow> dials_in (en_unicode E) W D (UpdateRouter rt d)"
    by (auto simp: dials_in_def UpdateRouter_def dest: disc_confinedD)
qed

section \<open>The client's connection\<close>

lemma try_discover_frame:
  "try_discover disc n h p s = (b, s') \<Longrightarrow>
     s_client s' = s_client s \<and> s_metrics s' = s_metrics s \<and> s_backend s' = s_backend s"
  by (auto simp: try_discover_def Let_def split: option.splits if_splits prod.splits)

lemma deny_client [simp]:
  "s_client (deny_ip addr s) = snd (writeFailureReply (s_client s) 0x04)"
  "s_client (deny_dial u h a e s) = snd (writeFailureReply (s_client s) 0x04)"
  by (simp_all add: deny_ip_def deny_dial_def Let_def)

lemma body_client:
  "connect_body E disc req n s = Inl (r, s') \<Longrightarrow>
     s_client s' = (if is_ok r then s_client s else snd (writeFailureReply (s_client s) 0x04))"
  by (erule connect_body_Inl)
    (auto split: if_splits dest!: try_discover_frame dial_attempt_dialer)

lemma body_client_continues: "connect_body E disc req n s = Inr s' \<Longrightarrow> s_client s' = s_client s"
  by (erule connect_body_Inr) (auto dest!: try_discover_frame dial_attempt_dialer)

lemma connect_client:
  assumes "connect_loop E disc req 0 s = (r, s')"
  shows "s_client s' = (if is_ok r then s_client s else snd (writeFailureReply (s_client s) 0x04))"
proof (rule connect_loop_rule [OF _ _ _ assms, where P = "\<lambda>n t. s_client t = s_client s"])
  show "s_client s'' = (if is_ok r' then s_client s else snd (writeFailureReply (s_client s) 0x04))"
    if "s_client t = s_client s" "connect_body E disc req n t = Inl (r', s'')" for n t r' s''
    using body_client [OF that(2)] that(1) by simp
qed (use body_client_continues in auto)

lemma io_copy_all:
  assumes "\<forall>k. wres dst k = None"
  shows "\<exists>w. io_copy chunk i src dst n =
    ((n + length (inp src), if inp_err src = io_EOF then None else Some (inp_err src)),
     src\<lparr>inp := []\<rparr>, dst\<lparr>outp := outp dst @ inp src, nwr := w\<rparr>)"
  using assms
proof (induction chunk i src dst n rule: io_copy.induct)
  case (1 chunk i src dst n)
  show ?case
  proof (cases "inp src = []")
    case True
    then have "src\<lparr>inp := []\<rparr> = src"
      by simp
    then show ?thesis
      using True by (intro exI [of _ "nwr dst"]) (subst io_copy.simps, simp)
  next
    case False
    define k where "k = chunk_len chunk i src"
    have k: "k \<le> length (inp src)" "0 < k"
      using False by (auto simp: k_def chunk_len_def Suc_le_eq)
    define dst1 where "dst1 = dst\<lparr>outp := outp dst @ take k (inp src), nwr := Suc (nwr dst)\<rparr>"
    have w: "conn_write (take k (inp src)) dst = (Inr (), dst1)"
      using 1(2) by (simp add: conn_write_def dst1_def)
    have "io_copy chunk i src dst n = io_copy chunk (Suc i) (src\<lparr>inp := drop k (inp src)\<rparr>) dst1 (n + k)"
      using False w by (subst io_copy.simps) (simp add: Let_def k_def)
    moreover from 1(1) [OF False k_def refl w [symmetric] refl] 1(2)
    obtain v where "io_copy chunk (Suc i) (src\<lparr>inp := drop k (inp src)\<rparr>) dst1 (n + k) =
      ((n + k + length (drop k (inp src)), if inp_err src = io_EOF then None else Some (inp_err src)),
       src\<lparr>inp := []\<rparr>, dst1\<lparr>outp := outp dst1 @ drop k (inp src), nwr := v\<rparr>)"
      by (auto simp: dst1_def)
    ultimately show ?thesis
      using k by (auto simp: dst1_def)
  qed
qed

section \<open>The metrics of a session\<close>

fun is_error_event :: "event \<Rightarrow> bool" where
  "is_error_event (ConnectionError _) = True" | "is_error_event _ = False"

fun is_done_event :: "event \<Rightarrow> bool" where
  "is_done_event (SessionDuration _) = True" | "is_done_event _ = False"

text \<open>The collector went through events with \<open>n\<close> errors and \<open>k\<close> completed sessions, and none that
  touches the connection gauge.\<close>

definition books :: "collector \<Rightarrow> nat \<Rightarrow> nat \<Rightarrow> collector \<Rightarrow> bool" where
  "books m n k m' \<longleftrightarrow> (\<exists>es. m' = observe es m \<and> length (filter is_error_event es) = n
     \<and> length (filter is_done_event es) = k \<and> Accepted \<notin> set es \<and> Closed \<notin> set es)"

lemma booksI:
  "observe es m = m' \<Longrightarrow> length (filter is_error_event es) = n \<Longrightarrow> length (filter is_done_event es) = k \<Longrightarrow>
     Accepted \<notin> set es \<Longrightarrow> Closed \<notin> set es \<Longrightarrow> books m n k m'"
  unfolding books_def by blast

lemma books_refl: "books m 0 0 m"
  by (rule booksI [of "[]"]) simp_all

lemma books_trans:
  assumes "books a n k b" and "books b n' k' c"
  shows "books a (n + n') (k + k') c"
proof -
  obtain es es' where "b = observe es a" "c = observe es' b"
    "length (filter is_error_event es) = n" "length (filter is_done_event es) = k" "Accepted \<notin> set es" "Closed \<notin> set es"
    "length (filter is_error_event es') = n'" "length (filter is_done_event es') = k'"
    "Accepted \<notin> set es'" "Closed \<notin> set es'"
    using assms unfolding books_def by blast
  then show ?thesis
    by (intro booksI [of "es @ es'"]) simp_all
qed

lemma dial_attempt_books: "dial_attempt E req n h s = (res, a, s') \<Longrightarrow> books (s_metrics s) 0 0 (s_metrics s')"
  by (rule booksI [of "[Request (atypLabel (req_atyp req)), DialLatency (en_clock E (NowDialDone n) - en_clock E (NowDialStart n))]"])
    (auto simp: dial_attempt_def Let_def split: prod.splits)

lemma deny_ip_books: "books (s_metrics s) 1 0 (s_metrics (deny_ip addr s))"
  by (rule booksI [of "[RouteFailure addr ''ip_not_in_routes'', ConnectionError ''backend_dial'']"])
    (simp_all add: deny_ip_def)

lemma deny_dial_books: "books (s_metrics s) 1 0 (s_metrics (deny_dial u h a e s))"
  by (rule booksI [of "[DialFailure h (classifyDialError u e), RouteFailure h (classifyDialError u e),
        RequestByBackend h a (classifyDialError u e), ConnectionError ''backend_dial'']"])
    (simp_all add: deny_dial_def Let_def)

lemma body_books:
  "connect_body E disc req n s = Inl (r, s') \<Longrightarrow> books (s_metrics s) (if is_ok r then 0 else 1) 0 (s_metrics s')"
proof (erule connect_body_Inl)
  fix addr s1
  assume "try_discover disc n (req_host req) (req_port req) s = (False, s1)"
    "r = Inl (errors_New (''ip '' @ addr @ '' not in any route (whitelist)''))" "s' = deny_ip addr s1"
  then show ?thesis
    using deny_ip_books [of s1 addr] try_discover_frame by fastforce
next
  fix h a b
  assume "dial_attempt E req n h s = (Inr b, a, s')" "r = Inr (h, a, b)"
  then show ?thesis
    using dial_attempt_books by fastforce
next
  fix h a e s1 s2
  assume 1: "dial_attempt E req n h s = (Inl e, a, s1)" and
    2: "if errors_Is e ErrRouteNotFound then try_discover disc n h (req_port req) s1 = (False, s2) else s2 = s1" and
    3: "r = Inl e" "s' = deny_dial (en_unicode E) h a e s2"
  have "s_metrics s2 = s_metrics s1"
    using 2 try_discover_frame by (fastforce split: if_splits)
  then show ?thesis
    using books_trans [OF dial_attempt_books [OF 1]] deny_dial_books [of s2 "en_unicode E" h a e] 3 by fastforce
qed

lemma body_books_continues: "connect_body E disc req n s = Inr s' \<Longrightarrow> books (s_metrics s) 0 0 (s_metrics s')"
  by (erule connect_body_Inr) (auto dest!: try_discover_frame dial_attempt_books intro: books_refl)

lemma connect_books:
  assumes "connect_loop E disc req 0 s = (r, s')"
  shows "books (s_metrics s) (if is_ok r then 0 else 1) 0 (s_metrics s')"
proof (rule connect_loop_rule [OF _ _ _ assms, where P = "\<lambda>n t. books (s_metrics s) 0 0 (s_metrics t)"])
  show "books (s_metrics s) (if is_ok r' then 0 else 1) 0 (s_metrics s'')"
    if "books (s_metrics s) 0 0 (s_metrics t)" "connect_body E disc req n t = Inl (r', s'')" for n t r' s''
    using books_trans [OF that(1) body_books [OF that(2)]] by simp
qed (use body_books_continues books_refl in auto)

lemma copyHalf_books: "copyHalf chunk dir src dst m = (e, src', dst', m') \<Longrightarrow> books m 0 0 m'"
  by (auto simp: copyHalf_def Let_def split: prod.splits intro!: booksI [of "[RelayBytes dir _]"])

lemma relay_books: "relay E c b m = (x, c', b', m') \<Longrightarrow> books m 0 0 m'"
  using books_trans [of m 0 0 _ 0 0 m']
  by (auto simp: relay_def Let_def split: prod.splits if_splits dest!: copyHalf_books)

lemma serve_tunnel_books:
  assumes "serve_tunnel E wt it h a b s = (r, s')"
  shows "books (s_metrics s) (if r = None then 0 else 1) (if r = None then 1 else 0) (s_metrics s')"
proof (cases "writeSuccessReply (arm_write wt (en_clock E NowWrite) (s_client s)) (bk_local b)")
  case (Pair res c2)
  show ?thesis
  proof (cases res)
    case (Inl e)
    then show ?thesis
      using assms Pair
      by (auto simp: serve_tunnel_def Let_def
          intro!: booksI [of "[RequestByBackend h a ''reply_error'', ConnectionError ''reply'']"])
  next
    case (Inr _)
    obtain relayErr closeType c4 b4 m where
      rel: "relay E (arm_both it (en_clock E NowIdleClient) (c2\<lparr>writeDeadline := None\<rparr>))
        (arm_both it (en_clock E NowIdleBackend) (bk_conn b)) (IncTCPState ''established'' (s_metrics s))
        = ((relayErr, closeType), c4, b4, m)"
      by (metis prod.exhaust)
    have 1: "books (s_metrics s) 0 0 (IncTCPState ''established'' (s_metrics s))"
      by (rule booksI [of "[TCPState ''established'']"]) simp_all
    have 2: "books m (if r = None then 0 else 1) (if r = None then 1 else 0) (s_metrics s')"
    proof (cases relayErr)
      case None
      then show ?thesis
        using assms Pair Inr rel
        by (auto simp: serve_tunnel_def Let_def
            intro!: booksI [of "[TCPState closeType, RequestByBackend h a ''success'',
              SessionDuration (en_clock E NowEnd - en_clock E NowSession)]"])
    next
      case (Some e)
      then show ?thesis
        using assms Pair Inr rel
        by (auto simp: serve_tunnel_def Let_def
            intro!: booksI [of "[TCPState closeType, RequestByBackend h a ''relay_error'', ConnectionError ''relay'']"])
    qed
    show ?thesis
      using books_trans [OF books_trans [OF 1 relay_books [OF rel]] 2] by simp
  qed
qed

lemma session_books:
  assumes "handleConnection E disc rt wt it s = (r, s')"
  shows "books (s_metrics s) (if r = None then 0 else 1) (if r = None then 1 else 0) (s_metrics s')"
proof -
  let ?d = "en_clock E NowRequestDone - en_clock E NowHandshake"
  have q: "books (s_metrics s) 0 0 (s_metrics (after_request E c s))" for c
    by (rule booksI [of "[HandshakeLatency ?d]"]) (simp_all add: after_request_def on_metrics_def)
  show ?thesis
    using assms
  proof (cases rule: handleConnection_cases)
    case (greeting e c)
    then show ?thesis
      by (auto simp: on_metrics_def intro!: booksI [of "[ConnectionError ''handshake'']"])
  next
    case (request c1 e c)
    then show ?thesis
      by (auto simp: on_metrics_def after_request_def
          intro!: booksI [of "[HandshakeLatency ?d, ConnectionError ''request'']"])
  next
    case (denied c1 req c e)
    then show ?thesis
      using books_trans [OF q connect_books [OF denied(3)]] by simp
  next
    case (tunnel c1 req c h a b s1)
    then show ?thesis
      using books_trans [OF books_trans [OF q connect_books [OF tunnel(3)]] serve_tunnel_books [OF tunnel(4)]] by simp
  qed
qed

section \<open>A concrete session\<close>

definition demo_backend :: backend_conn where
  "demo_backend = \<lparr>bk_conn = demo_conn [7, 8, 9], bk_local = TCP \<lparr>tcp_IP = [127, 0, 0, 1], tcp_Port = 40000\<rparr>\<rparr>"

definition demo_env :: env where
  "demo_env = \<lparr>en_unicode = ascii_tables, en_clock = (\<lambda>_. 0), en_dial = (\<lambda>n a t. Inr (TcpConn demo_backend)),
     en_chunkC = (\<lambda>_. 2), en_chunkB = (\<lambda>_. 2), en_clientFirst = True\<rparr>"

definition demo_dialer :: routeDialer where
  "demo_dialer = newRouteDialer demo_router (4 * 10 ^ 9) (30 * 10 ^ 9) 2"

definition demo_session :: "byte list \<Rightarrow> unit session" where
  "demo_session bs = \<lparr>s_client = demo_conn bs, s_dialer = demo_dialer, s_metrics = NewCollector, s_ext = (),
     s_backend = None\<rparr>"

definition demo_name :: request where
  "demo_name = \<lparr>req_atyp = 0x03, req_host = ''db'', req_port = 80\<rparr>"

lemma demo_name_wf: "request_wf demo_name"
  by (simp add: request_wf_def demo_name_def)

abbreviation "demo_run bs \<equiv> handleConnection demo_env None 10 10 300 (demo_session bs)"

lemma demo_confined:
  "confined ascii_tables {''10.0.2.1:5432'', ''10.0.1.10:8080'', ''10.0.1.11:8080''} demo_router"
  using demo_router_wf
  by (auto simp: confined_def view_def demo_router_def gm_get_def fresh_backends_def split: if_splits)

lemma demo_Pick_db:
  "Pick ascii_tables demo_router ''db'' = (Inr ''10.0.2.1:5432'', demo_router\<lparr>pools :=
      gm_put ''db'' \<lparr>backends = fresh_backends [''10.0.2.1:5432'', ''10.0.1.10:8080''], rr = 1\<rparr> (pools demo_router)\<rparr>)"
  by (simp add: Pick_cases demo_keys_norm)
    (simp add: demo_router_def gm_get_def fresh_backends_def numeral_2_eq_2 demo_keys_norm)

section \<open>Properties\<close>

text \<open>C2: strict whitelisting. If every pool of the router holds only addresses of a set, and
  auto-discovery (if there is any) installs only routers of this kind, then a session dials no
  address outside the set, whatever the client sends.\<close>

theorem only_listed_dialled:
  assumes "confined (en_unicode E) W (rd_router (s_dialer s))" and "disc_confined (en_unicode E) W disc"
    and "handleConnection E disc rt wt it s = (r, s')"
  shows "snd ` set (rd_dials (s_dialer s')) \<subseteq> snd ` set (rd_dials (s_dialer s)) \<union> W"
  using whitelist.session_keeps [OF _ assms(3), of W "snd ` set (rd_dials (s_dialer s))"] assms(1,2)
  by (auto simp: dials_in_def)

theorem only_listed_dialled_witness:
  "snd ` set (rd_dials (s_dialer (snd (demo_run [5, 1, 0, 5, 1, 0, 3, 2, 100, 98, 0, 80])))) \<subseteq> {''10.0.2.1:5432'', ''10.0.1.10:8080'', ''10.0.1.11:8080''}"
  using only_listed_dialled [of demo_env "{''10.0.2.1:5432'', ''10.0.1.10:8080'', ''10.0.1.11:8080''}" "demo_session [5, 1, 0, 5, 1, 0, 3, 2, 100, 98, 0, 80]" None
      10 10 300 "fst (demo_run [5, 1, 0, 5, 1, 0, 3, 2, 100, 98, 0, 80])" "snd (demo_run [5, 1, 0, 5, 1, 0, 3, 2, 100, 98, 0, 80])"] demo_confined
  by (simp add: demo_env_def demo_session_def demo_dialer_def newRouteDialer_def disc_confined_def)

text \<open>A dial goes to a live backend of the requested host. \<open>DialRoute\<close> dials at most once, and
  only an address that is alive in the host's pool at that moment; with no free token it neither
  picks nor dials; the dial limit has the same tokens afterwards.\<close>

theorem dial_goes_to_live_backend:
  assumes "router_wf (rd_router d)" and "DialRoute u dial d h = (res, a, d')"
  shows "rd_inflightSem d' = rd_inflightSem d
    \<and> (rd_dials d' \<noteq> rd_dials d \<longrightarrow> rd_dials d' = rd_dials d @ [(h, a)]
        \<and> (\<exists>xs. view u (rd_router d) (socks_normalizeHost u h) = Some xs \<and> (a, True) \<in> set xs))
    \<and> (is_ok res \<longrightarrow> rd_dials d' \<noteq> rd_dials d)
    \<and> (sem_try (rd_inflightSem d) = None \<longrightarrow> d' = d \<and> \<not> is_ok res)"
proof -
  have "rd_dials d' = rd_dials d @ [(h, a)] \<and> fst (Pick u (rd_router d) (socks_normalizeHost u h)) = Inr a"
    if "rd_dials d' \<noteq> rd_dials d \<or> is_ok res"
    using assms(2) that
    by (auto simp: DialRoute_def dial_picked_def currentRouter_def Let_def
        split: option.splits prod.splits sum.splits dialled.splits)
  then show ?thesis
    using DialRoute_frame [OF assms(2)] Pick_Inr [OF assms(1)] assms(2)
    by (auto simp: DialRoute_def)
qed

theorem dial_goes_to_live_backend_witness:
  "rd_dials (snd (snd (DialRoute ascii_tables (\<lambda>a t. Inr (TcpConn demo_backend)) demo_dialer ''db''))) = [(''db'', ''10.0.2.1:5432'')]
   \<and> (\<exists>xs. view ascii_tables (rd_router demo_dialer) (socks_normalizeHost ascii_tables ''db'') = Some xs \<and> (''10.0.2.1:5432'', True) \<in> set xs)"
proof -
  have n: "socks_normalizeHost ascii_tables ''db'' = ''db''"
    by code_simp
  obtain d' where d: "DialRoute ascii_tables (\<lambda>a t. Inr (TcpConn demo_backend)) demo_dialer ''db'' = (Inr demo_backend, ''10.0.2.1:5432'', d')"
    by (simp add: DialRoute_def dial_picked_def currentRouter_def demo_dialer_def newRouteDialer_def sem_make_def n demo_Pick_db)
  have "router_wf (rd_router demo_dialer)"
    by (simp add: demo_dialer_def newRouteDialer_def demo_router_wf)
  moreover have "rd_dials demo_dialer = []"
    by (simp add: demo_dialer_def newRouteDialer_def)
  ultimately show ?thesis
    using dial_goes_to_live_backend [OF _ d] d by auto
qed

text \<open>A session gives back every token of the dial limit it took, on every path.\<close>

theorem dial_tokens_balanced:
  assumes "handleConnection E disc rt wt it s = (r, s')"
  shows "rd_inflightSem (s_dialer s') = rd_inflightSem (s_dialer s)"
  by (rule tokens.session_keeps [OF refl assms])

theorem dial_tokens_balanced_witness:
  "rd_inflightSem (s_dialer (snd (demo_run [5, 1, 0, 5, 1, 0, 3, 2, 100, 98, 0, 80]))) = Some (2, 0)"
  using dial_tokens_balanced [of demo_env None 10 10 300 "demo_session [5, 1, 0, 5, 1, 0, 3, 2, 100, 98, 0, 80]" "fst (demo_run [5, 1, 0, 5, 1, 0, 3, 2, 100, 98, 0, 80])" "snd (demo_run [5, 1, 0, 5, 1, 0, 3, 2, 100, 98, 0, 80])"]
  by (simp add: demo_session_def demo_dialer_def newRouteDialer_def sem_make_def)

text \<open>C16: every session is accounted for exactly once: one connection error if it fails, none
  if it succeeds; one session duration if it succeeds, none if it fails. It never touches the gauge
  of active connections.\<close>

theorem session_accounts:
  assumes "handleConnection E disc rt wt it s = (r, s')"
  shows "\<exists>es. s_metrics s' = observe es (s_metrics s)
    \<and> length (filter is_error_event es) = (if r = None then 0 else 1)
    \<and> length (filter is_done_event es) = (if r = None then 1 else 0)
    \<and> Accepted \<notin> set es \<and> Closed \<notin> set es"
  using session_books [OF assms] by (simp add: books_def)

theorem session_accounts_witness:
  "\<exists>es. s_metrics (snd (demo_run [])) = observe es NewCollector
    \<and> length (filter is_error_event es) = (if fst (demo_run []) = None then 0 else 1)"
  using session_accounts [of demo_env None 10 10 300 "demo_session []" "fst (demo_run [])" "snd (demo_run [])"]
  by (auto simp: demo_session_def)

text \<open>Auto-discovery is asked at most once per session, however it answers.\<close>

definition counted :: "'x discover \<Rightarrow> ('x \<times> nat) discover" where
  "counted f h p rx = (let (res, r, x) = f h p (fst rx, fst (snd rx)) in (res, r, x, Suc (snd (snd rx))))"

lemma try_counted:
  "try_discover (Some (counted f)) n h p s = (b, s') \<Longrightarrow>
     snd (s_ext s') = snd (s_ext s) + (if n = 0 then 1 else 0)"
  by (auto simp: try_discover_def counted_def Let_def split: if_splits prod.splits)

theorem discover_at_most_once:
  assumes "handleConnection E (Some (counted f)) rt wt it s = (r, s')"
  shows "snd (s_ext s') \<le> Suc (snd (s_ext s))"
proof -
  have loop: "snd (s_ext t') \<le> Suc (snd (s_ext t))" if l: "connect_loop E (Some (counted f)) req 0 t = (x, t')" for req t x t'
  proof (rule connect_loop_rule [OF _ _ _ l, where P = "\<lambda>n t1. snd (s_ext t1) \<le> snd (s_ext t) + n \<and> n \<le> 1"])
    show "snd (s_ext t1) \<le> snd (s_ext t) + Suc 0 \<and> Suc 0 \<le> 1"
      if "connect_body E (Some (counted f)) req 0 t = Inr t1" for t1
      using that by (cases rule: connect_body_Inr) (auto dest!: try_counted dial_attempt_dialer)
    show "snd (s_ext t2) \<le> Suc (snd (s_ext t))"
      if "snd (s_ext t1) \<le> snd (s_ext t) + n \<and> n \<le> 1" "connect_body E (Some (counted f)) req n t1 = Inl (y, t2)" for n t1 y t2
      using that(2,1) by (cases rule: connect_body_Inl) (auto split: if_splits dest!: try_counted dial_attempt_dialer)
  qed simp
  show ?thesis
    using assms
  proof (cases rule: handleConnection_cases)
    case (denied c1 req c e)
    then show ?thesis
      using loop [OF denied(3)] by simp
  next
    case (tunnel c1 req c h a b s1)
    then show ?thesis
      using loop [OF tunnel(3)] serve_tunnel_frame(2) [of E wt it h a b s1] by simp
  qed auto
qed

theorem discover_at_most_once_witness:
  "snd (s_ext (snd (handleConnection demo_env (Some (counted (\<lambda>h p rx. (Inr True, rx)))) 10 10 300
      \<lparr>s_client = demo_conn [5, 1, 0, 5, 1, 0, 3, 2, 100, 98, 0, 80], s_dialer = demo_dialer, s_metrics = None, s_ext = ((), 0), s_backend = None\<rparr>))) \<le> 1"
  using discover_at_most_once [of demo_env "\<lambda>h p rx. (Inr True, rx)" 10 10 300
      "\<lparr>s_client = demo_conn [5, 1, 0, 5, 1, 0, 3, 2, 100, 98, 0, 80], s_dialer = demo_dialer, s_metrics = None, s_ext = ((), 0), s_backend = None\<rparr>"]
  by (metis One_nat_def prod.collapse select_convs(4) snd_conv)

definition success_reply :: "TCPAddr \<Rightarrow> byte list" where
  "success_reply t = [0x05, 0x00, 0x00, 0x01]
     @ (case To4 (tcp_IP t) of Some q \<Rightarrow> q | None \<Rightarrow> [0, 0, 0, 0]) @ put16 (of_int (tcp_Port t))"

lemma writeSuccessReply_ok:
  "wres c (nwr c) = None \<Longrightarrow>
     writeSuccessReply c (TCP t) = (Inr (), c\<lparr>outp := outp c @ success_reply t, nwr := Suc (nwr c)\<rparr>)"
  by (simp add: writeSuccessReply_def success_reply_def conn_write_def)

lemma arm_frame [simp]:
  "inp (arm_read t n c) = inp c" "outp (arm_read t n c) = outp c" "nwr (arm_read t n c) = nwr c"
  "wres (arm_read t n c) = wres c" "(arm_read t n c)\<lparr>readDeadline := v\<rparr> = c\<lparr>readDeadline := v\<rparr>"
  "wres (arm_write t n c) = wres c" "outp (arm_write t n c) = outp c" "nwr (arm_write t n c) = nwr c"
  "inp (arm_write t n c) = inp c" "inp_err (arm_write t n c) = inp_err c"
  "wres (arm_both t n c) = wres c" "outp (arm_both t n c) = outp c" "nwr (arm_both t n c) = nwr c"
  "inp (arm_both t n c) = inp c" "inp_err (arm_both t n c) = inp_err c"
  by (simp_all add: arm_read_def arm_write_def arm_both_def)

text \<open>The client's connection after the negotiation, with the rest of its bytes unread.\<close>

definition greeted :: "byte list \<Rightarrow> conn \<Rightarrow> conn" where
  "greeted payload c = c\<lparr>inp := payload, outp := outp c @ [0x05, 0x00], nwr := Suc (nwr c), readDeadline := None\<rparr>"

lemma negotiation:
  assumes "inp (s_client s) = [0x05, of_nat (length ms)] @ ms @ enc_request req @ payload"
    and "ms \<noteq> []" "length ms \<le> 255" "0x00 \<in> set ms" "request_wf req" "wres (s_client s) (nwr (s_client s)) = None"
  shows "handleConnection E disc rt wt it s =
    (case connect_loop E disc req 0 (after_request E (greeted payload (s_client s)) s) of
       (Inl e, s3) \<Rightarrow> (Some e, s3)
     | (Inr (h, a, b), s3) \<Rightarrow> serve_tunnel E wt it h a b s3)"
proof -
  let ?c0 = "arm_read rt (en_clock E NowReadGreeting) (s_client s)"
  let ?c1 = "?c0\<lparr>inp := enc_request req @ payload, outp := outp (s_client s) @ [0x05, 0x00], nwr := Suc (nwr (s_client s))\<rparr>"
  have "handleHandshake ?c0 = (Inr (), ?c1)"
    using handleHandshake_greeting [of ?c0 ms "enc_request req @ payload"] assms by (simp add: conn_write_def)
  moreover have "readRequest (arm_read rt (en_clock E NowReadRequest) ?c1)
      = (Inr req, (arm_read rt (en_clock E NowReadRequest) ?c1)\<lparr>inp := payload\<rparr>)"
    using assms(5) by (rule readRequest_encodes) simp
  moreover have "((arm_read rt (en_clock E NowReadRequest) ?c1)\<lparr>inp := payload\<rparr>)\<lparr>readDeadline := None\<rparr>
      = greeted payload (s_client s)"
    by (simp add: arm_read_def greeted_def)
  ultimately show ?thesis
    by (simp add: handleConnection_def after_request_def greeted_def)
qed

lemma relay_all:
  assumes "\<forall>k. wres c k = None" and "\<forall>k. wres b k = None"
  shows "\<exists>x c' b' m'. relay E c b m = (x, c', b', m') \<and> outp c' = outp c @ inp b \<and> outp b' = outp b @ inp c
    \<and> wclosed c' \<and> wclosed b' \<and> inp c' = [] \<and> inp b' = []
    \<and> (inp_err c = io_EOF \<and> inp_err b = io_EOF \<longrightarrow> x = (None, ''fin''))"
proof -
  obtain w where 1: "io_copy (en_chunkC E) 0 c b 0 = ((length (inp c), if inp_err c = io_EOF then None else Some (inp_err c)),
      c\<lparr>inp := []\<rparr>, b\<lparr>outp := outp b @ inp c, nwr := w\<rparr>)"
    using io_copy_all [OF assms(2), of "en_chunkC E" 0 c 0] by auto
  let ?b1 = "b\<lparr>outp := outp b @ inp c, nwr := w, wclosed := True\<rparr>"
  obtain v where 2: "io_copy (en_chunkB E) 0 ?b1 (c\<lparr>inp := []\<rparr>) 0
      = ((length (inp b), if inp_err b = io_EOF then None else Some (inp_err b)),
      ?b1\<lparr>inp := []\<rparr>, c\<lparr>inp := [], outp := outp c @ inp b, nwr := v\<rparr>)"
    using io_copy_all [of "c\<lparr>inp := []\<rparr>" "en_chunkB E" 0 ?b1 0] assms(1) by auto
  show ?thesis
    by (simp add: relay_def copyHalf_def 1 2 first_error_def isIgnorableCopyError_def classifyCloseType_def isRSTError_def)
qed

lemma serve_tunnel_bytes:
  assumes st: "serve_tunnel E wt it h a b s = (r, s')" and t: "bk_local b = TCP t"
    and w: "\<forall>k. wres (s_client s) k = None" and wb: "\<forall>k. wres (bk_conn b) k = None"
  shows "outp (s_client s') = outp (s_client s) @ success_reply t @ inp (bk_conn b)
    \<and> (\<exists>b'. s_backend s' = Some b' \<and> outp (bk_conn b') = outp (bk_conn b) @ inp (s_client s) \<and> closed (bk_conn b'))
    \<and> (inp_err (s_client s) = io_EOF \<and> inp_err (bk_conn b) = io_EOF \<longrightarrow> r = None)"
proof -
  let ?c2 = "arm_write wt (en_clock E NowWrite) (s_client s)"
  let ?c3 = "?c2\<lparr>outp := outp ?c2 @ success_reply t, nwr := Suc (nwr ?c2)\<rparr>"
  let ?C = "arm_both it (en_clock E NowIdleClient) (?c3\<lparr>writeDeadline := None\<rparr>)"
  let ?B = "arm_both it (en_clock E NowIdleBackend) (bk_conn b)"
  have wr: "writeSuccessReply ?c2 (TCP t) = (Inr (), ?c3)"
    using w by (intro writeSuccessReply_ok) simp
  have "\<forall>k. wres ?C k = None" and "\<forall>k. wres ?B k = None"
    using w wb by simp_all
  from relay_all [OF this] obtain x c4 b4 m where
    rel: "relay E ?C ?B (IncTCPState ''established'' (s_metrics s)) = (x, c4, b4, m)"
    and o: "outp c4 = outp ?C @ inp ?B" "outp b4 = outp ?B @ inp ?C"
      "inp_err ?C = io_EOF \<and> inp_err ?B = io_EOF \<longrightarrow> x = (None, ''fin'')"
    by metis
  show ?thesis
    using st rel o wr
    by (auto simp: serve_tunnel_def t Let_def close_backend_def split: prod.splits option.splits)
qed

text \<open>C3: a session, end to end. The client sends a greeting that offers NO AUTH, a well-formed
  request and a payload, and can be written to. If no backend is reached it gets
  the answer \<open>05 00\<close>, one host-unreachable reply, and an error is returned. If one is reached (over
  TCP, and can be written to) it gets \<open>05 00\<close>, the success reply with the local address, and then exactly
  the bytes of the backend; the backend gets exactly the payload, and is closed.\<close>

theorem session_end_to_end:
  assumes "inp (s_client s) = [0x05, of_nat (length ms)] @ ms @ enc_request req @ payload"
    and "ms \<noteq> []" "length ms \<le> 255" "0x00 \<in> set ms" "request_wf req" and w: "\<forall>k. wres (s_client s) k = None"
    and "handleConnection E disc rt wt it s = (r, s')"
  shows "case connect_loop E disc req 0 (after_request E (greeted payload (s_client s)) s) of
      (Inl e, _) \<Rightarrow> r = Some e \<and> outp (s_client s') = outp (s_client s) @ [0x05, 0x00] @ failure_reply 0x04
    | (Inr (h, a, b), _) \<Rightarrow> \<forall>t. bk_local b = TCP t \<and> (\<forall>k. wres (bk_conn b) k = None) \<longrightarrow>
        outp (s_client s') = outp (s_client s) @ [0x05, 0x00] @ success_reply t @ inp (bk_conn b)
        \<and> (\<exists>b'. s_backend s' = Some b' \<and> outp (bk_conn b') = outp (bk_conn b) @ payload \<and> closed (bk_conn b'))
        \<and> (inp_err (s_client s) = io_EOF \<and> inp_err (bk_conn b) = io_EOF \<longrightarrow> r = None)"
proof -
  note n = negotiation [OF assms(1-5), of E disc rt wt it]
  obtain x s3 where l: "connect_loop E disc req 0 (after_request E (greeted payload (s_client s)) s) = (x, s3)"
    by fastforce
  have c: "s_client s3 = (if is_ok x then greeted payload (s_client s) else snd (writeFailureReply (greeted payload (s_client s)) 0x04))"
    using connect_client [OF l] by (simp add: greeted_def)
  show ?thesis
  proof (cases x)
    case (Inl e)
    then show ?thesis
      using n l c w assms(7) by (simp add: writeFailureReply_def conn_write_def greeted_def failure_reply_def)
  next
    case (Inr y)
    obtain h a b where y: "y = (h, a, b)" by (cases y)
    have st: "serve_tunnel E wt it h a b s3 = (r, s')"
      using n l w assms(7) Inr y by simp
    have g: "s_client s3 = greeted payload (s_client s)"
      using c Inr by simp
    then have "\<forall>k. wres (s_client s3) k = None"
      using w by (simp add: greeted_def)
    from serve_tunnel_bytes [OF st _ this] show ?thesis
      using l Inr y g by (simp add: greeted_def)
  qed
qed

lemma demo_connects:
  "\<exists>s3. connect_loop demo_env None demo_name 0 (after_request demo_env c (demo_session bs))
     = (Inr (''db'', ''10.0.2.1:5432'', demo_backend), s3)"
proof -
  have n: "socks_normalizeHost ascii_tables ''db'' = ''db''"
    by code_simp
  show ?thesis
    by (subst connect_loop.simps)
      (simp add: connect_body_def route_of_def demo_name_def RouteKey_def n dial_attempt_def DialRoute_def dial_picked_def
        currentRouter_def demo_env_def demo_session_def demo_dialer_def newRouteDialer_def sem_make_def demo_Pick_db Let_def)
qed

theorem session_end_to_end_witness:
  "\<exists>s'. demo_run ([0x05, 0x01, 0x00] @ enc_request demo_name @ [1, 2]) = (None, s')
     \<and> outp (s_client s') = [0x05, 0x00] @ success_reply \<lparr>tcp_IP = [127, 0, 0, 1], tcp_Port = 40000\<rparr> @ [7, 8, 9]"
proof -
  let ?s = "demo_session ([0x05, 0x01, 0x00] @ enc_request demo_name @ [1, 2])"
  obtain r s' where run: "demo_run ([0x05, 0x01, 0x00] @ enc_request demo_name @ [1, 2]) = (r, s')"
    by fastforce
  obtain s3 where l: "connect_loop demo_env None demo_name 0 (after_request demo_env (greeted [1, 2] (s_client ?s)) ?s)
     = (Inr (''db'', ''10.0.2.1:5432'', demo_backend), s3)"
    using demo_connects by blast
  have "inp (s_client ?s) = [0x05, of_nat (length [0x00 :: byte])] @ [0x00] @ enc_request demo_name @ [1, 2]"
    by (simp add: demo_session_def demo_conn_def)
  moreover have "\<forall>k. wres (s_client ?s) k = None"
    by (simp add: demo_session_def demo_conn_def)
  ultimately show ?thesis
    using session_end_to_end [OF _ _ _ _ demo_name_wf _ run, of "[0x00]" "[1, 2]"] l run
    by (simp add: demo_backend_def demo_session_def demo_conn_def)
qed

lemma RST_ignorable: "isRSTError u e \<Longrightarrow> isIgnorableCopyError u e"
  by (auto simp: isRSTError_def isIgnorableCopyError_def Let_def split: option.splits)

lemma io_copy_frame:
  "io_copy chunk i src dst n = (r, src', dst') \<Longrightarrow>
     src' = src\<lparr>inp := inp src'\<rparr> \<and> dst' = dst\<lparr>outp := outp dst', nwr := nwr dst'\<rparr>
     \<and> io_copy chunk i (src\<lparr>outp := o1, nwr := k1, wclosed := w1\<rparr>) (dst\<lparr>inp := i2\<rparr>) n
         = (r, src'\<lparr>outp := o1, nwr := k1, wclosed := w1\<rparr>, dst'\<lparr>inp := i2\<rparr>)"
proof (induction chunk i src dst n rule: io_copy.induct)
  case (1 chunk i src dst n)
  show ?case
  proof (cases "inp src = []")
    case True
    then show ?thesis
      using 1(2) by (auto simp: io_copy.simps [of chunk i])
  next
    case False
    define k where "k = chunk_len chunk i src"
    have k': "chunk_len chunk i (src\<lparr>outp := o1, nwr := k1, wclosed := w1\<rparr>) = k"
      by (simp add: k_def chunk_len_def)
    define out where "out = conn_write (take k (inp src)) dst"
    obtain res dst1 where o: "out = (res, dst1)" by fastforce
    have o': "conn_write (take k (inp src)) (dst\<lparr>inp := i2\<rparr>) = (res, dst1\<lparr>inp := i2\<rparr>)"
      using o by (auto simp: out_def conn_write_def split: option.splits)
    obtain o2 n2 where d1: "dst1 = dst\<lparr>outp := o2, nwr := n2\<rparr>"
      using o by (auto simp: out_def conn_write_def split: option.splits)
    have swap: "src\<lparr>outp := o1, nwr := k1, wclosed := w1, inp := x\<rparr> = src\<lparr>inp := x, outp := o1, nwr := k1, wclosed := w1\<rparr>" for x
      by simp
    show ?thesis
    proof (cases res)
      case (Inl e)
      then show ?thesis
        using 1(2) False o o' d1
        by (auto simp: io_copy.simps [of chunk i] Let_def k' k_def [symmetric] out_def [symmetric])
    next
      case (Inr _)
      have "io_copy chunk (Suc i) (src\<lparr>inp := drop k (inp src)\<rparr>) dst1 (n + k) = (r, src', dst')"
        using 1(2) False o Inr by (simp add: io_copy.simps [of chunk i] Let_def k_def [symmetric] out_def [symmetric])
      from 1(1) [OF False k_def refl _ _ this] o Inr
      have "src' = (src\<lparr>inp := drop k (inp src)\<rparr>)\<lparr>inp := inp src'\<rparr>"
        and d': "dst' = dst1\<lparr>outp := outp dst', nwr := nwr dst'\<rparr>"
        and "io_copy chunk (Suc i) (src\<lparr>inp := drop k (inp src), outp := o1, nwr := k1, wclosed := w1\<rparr>) (dst1\<lparr>inp := i2\<rparr>) (n + k)
          = (r, src'\<lparr>outp := o1, nwr := k1, wclosed := w1\<rparr>, dst'\<lparr>inp := i2\<rparr>)"
        by (auto simp: out_def)
      moreover have "dst' = dst\<lparr>outp := outp dst', nwr := nwr dst'\<rparr>"
        using d' unfolding d1 by simp
      ultimately show ?thesis
        using False o' Inr
        by (simp add: io_copy.simps [of chunk i "src\<lparr>outp := o1, nwr := k1, wclosed := w1\<rparr>"] Let_def k' swap)
    qed
  qed
qed

text \<open>The relay with its halves executed in the other order.\<close>

definition relay_backend_first ::
  "env \<Rightarrow> conn \<Rightarrow> conn \<Rightarrow> collector \<Rightarrow> (go_error option \<times> string) \<times> conn \<times> conn \<times> collector" where
  "relay_backend_first E client backend m =
     (let (errB, backend1, client1, m1) = copyHalf (en_chunkB E) ''backend_to_client'' backend client m;
          (errC, client2, backend2, m2) = copyHalf (en_chunkC E) ''client_to_backend'' client1 backend1 m1;
          (err1, err2) = (if en_clientFirst E then (errC, errB) else (errB, errC))
      in ((first_error (en_unicode E) [err1, err2], classifyCloseType (en_unicode E) err1 err2), client2, backend2, m2))"

lemma halves_commute:
  assumes C: "io_copy chC 0 c b 0 = (rC, c1, b1)" and B: "io_copy chB 0 b c 0 = (rB, b2, c2)"
  shows "io_copy chB 0 (b1\<lparr>wclosed := True\<rparr>) c1 0
      = (rB, b2\<lparr>outp := outp b1, nwr := nwr b1, wclosed := True\<rparr>, c2\<lparr>inp := inp c1\<rparr>)"
    and "io_copy chC 0 (c2\<lparr>wclosed := True\<rparr>) b2 0
      = (rC, c1\<lparr>outp := outp c2, nwr := nwr c2, wclosed := True\<rparr>, b1\<lparr>inp := inp b2\<rparr>)"
    and "c2\<lparr>inp := inp c1, wclosed := True\<rparr> = c1\<lparr>outp := outp c2, nwr := nwr c2, wclosed := True\<rparr>"
    and "b2\<lparr>outp := outp b1, nwr := nwr b1, wclosed := True\<rparr> = b1\<lparr>inp := inp b2, wclosed := True\<rparr>"
proof -
  have c1: "c1 = c\<lparr>inp := inp c1\<rparr>" and b1: "b1 = b\<lparr>outp := outp b1, nwr := nwr b1\<rparr>"
    using io_copy_frame [OF C] by blast+
  have b2: "b2 = b\<lparr>inp := inp b2\<rparr>" and c2: "c2 = c\<lparr>outp := outp c2, nwr := nwr c2\<rparr>"
    using io_copy_frame [OF B] by blast+
  show "io_copy chB 0 (b1\<lparr>wclosed := True\<rparr>) c1 0
      = (rB, b2\<lparr>outp := outp b1, nwr := nwr b1, wclosed := True\<rparr>, c2\<lparr>inp := inp c1\<rparr>)"
    using io_copy_frame [OF B, where ?o1.0 = "outp b1" and ?k1.0 = "nwr b1" and ?w1.0 = True and ?i2.0 = "inp c1"] by (subst b1, subst c1) simp
  show "io_copy chC 0 (c2\<lparr>wclosed := True\<rparr>) b2 0
      = (rC, c1\<lparr>outp := outp c2, nwr := nwr c2, wclosed := True\<rparr>, b1\<lparr>inp := inp b2\<rparr>)"
    using io_copy_frame [OF C, where ?o1.0 = "outp c2" and ?k1.0 = "nwr c2" and ?w1.0 = True and ?i2.0 = "inp b2"] by (subst c2, subst b2) simp
  show "c2\<lparr>inp := inp c1, wclosed := True\<rparr> = c1\<lparr>outp := outp c2, nwr := nwr c2, wclosed := True\<rparr>"
    by (subst c1, subst c2) simp
  show "b2\<lparr>outp := outp b1, nwr := nwr b1, wclosed := True\<rparr> = b1\<lparr>inp := inp b2, wclosed := True\<rparr>"
    by (subst b1, subst b2) simp
qed

lemma AddRelayBytes_val:
  "map_option (\<lambda>x. gm_val (relayBytes x) k) (AddRelayBytes d n m) =
     map_option (\<lambda>x. gm_val (relayBytes x) k + (if k = d \<and> 0 < n then of_int n else 0)) m"
  by (cases m) (auto simp: AddRelayBytes_def cm.val_add)

lemma first_error_None: "first_error u [a, b] = None \<longleftrightarrow> isIgnorableCopyError u a \<and> isIgnorableCopyError u b"
  by (auto simp: first_error_def isIgnorableCopyError_def split: option.splits)

lemma first_error_swap: "first_error u [a, b] = None \<longleftrightarrow> first_error u [b, a] = None"
  by (auto simp: first_error_None)

lemma close_type_swap: "classifyCloseType u a b = classifyCloseType u b a"
  by (auto simp: classifyCloseType_def)

text \<open>The relay does not depend on scheduling. Whichever half runs first, both connections end in
  the same state, the same bytes are counted per direction, the close type and the error are the same;
  which half reports first decides at most which of two errors is returned, never whether one is.
  A reset of the connection is reported as close type \<open>rst\<close> and not as an error.\<close>

theorem relay_schedule_independent:
  "(\<exists>x c' b' m1 m2. relay E c b m = (x, c', b', m1) \<and> relay_backend_first E c b m = (x, c', b', m2)
     \<and> (\<forall>d. map_option (\<lambda>y. gm_val (relayBytes y) d) m1 = map_option (\<lambda>y. gm_val (relayBytes y) d) m2))
   \<and> (let (x, st) = relay E c b m; (x', st') = relay (E\<lparr>en_clientFirst := v\<rparr>) c b m
      in st' = st \<and> snd x' = snd x \<and> (fst x' = None) = (fst x = None))
   \<and> (isRSTError u e \<longrightarrow> classifyCloseType u e e2 = ''rst'' \<and> isIgnorableCopyError u e)"
proof (intro conjI)
  obtain nC eC c1 b1 where C: "io_copy (en_chunkC E) 0 c b 0 = ((nC, eC), c1, b1)"
    by (metis prod.exhaust)
  obtain nB eB b2 c2 where B: "io_copy (en_chunkB E) 0 b c 0 = ((nB, eB), b2, c2)"
    by (metis prod.exhaust)
  note h = halves_commute [OF C B]
  show "\<exists>x c' b' m1 m2. relay E c b m = (x, c', b', m1) \<and> relay_backend_first E c b m = (x, c', b', m2)
     \<and> (\<forall>d. map_option (\<lambda>y. gm_val (relayBytes y) d) m1 = map_option (\<lambda>y. gm_val (relayBytes y) d) m2)"
    using h(3,4)
    by (simp add: relay_def relay_backend_first_def copyHalf_def C B h(1,2) AddRelayBytes_val split: if_split)
      (cases m; simp add: AddRelayBytes_def cm.val_add)
  show "let (x, st) = relay E c b m; (x', st') = relay (E\<lparr>en_clientFirst := v\<rparr>) c b m
      in st' = st \<and> snd x' = snd x \<and> (fst x' = None) = (fst x = None)"
    by (auto simp: relay_def Let_def first_error_None close_type_swap split: prod.splits)
qed (auto simp: classifyCloseType_def RST_ignorable)

theorem relay_schedule_independent_witness:
  "isIgnorableCopyError ascii_tables (Some (errors_New ''read tcp: connection reset by peer''))"
proof -
  have "isRSTError ascii_tables (Some (errors_New ''read tcp: connection reset by peer''))"
    by code_simp
  then show ?thesis
    using relay_schedule_independent [of demo_env "demo_conn []" "demo_conn []" None True ascii_tables
        "Some (errors_New ''read tcp: connection reset by peer'')" None] by blast
qed

text \<open>A request for an unknown host is counted as \<open>route_not_found\<close>, whatever bytes the host
  name has.\<close>

theorem route_not_found_classified:
  assumes "DialRoute u dial d h = (Inl e, a, d')" and "errors_Is e ErrRouteNotFound"
    and "\<forall>a t e. dial a t = Inl e \<longrightarrow> \<not> errors_Is e ErrRouteNotFound"
  shows "classifyDialError u e = ''route_not_found''"
proof -
  obtain e0 where e: "e = errorf_w (''route for host '' @ Quote (uc_print u) h @ '' not found'') e0"
    using assms
    by (auto simp: DialRoute_def dial_picked_def wrap_pick_error_def Let_def
        split: option.splits prod.splits sum.splits dialled.splits if_splits)
  obtain rest where rest: "err_msg e = ''route for host '' @ rest"
    by (simp add: e errorf_w_def)
  have "is_ascii ''route for host ''"
    by code_simp
  from ToLower_append_ascii [OF this, of "uc_lower u" rest]
  have "lower_msg u e = ToLower (uc_lower u) ''route for host '' @ ToLower (uc_lower u) rest"
    by (simp add: lower_msg_def rest)
  also have "ToLower (uc_lower u) ''route for host '' = ''route for host ''"
    by (rule ToLower_no_upper) code_simp
  finally have "Contains (lower_msg u e) ''route for host''"
    using ContainsI [of "[]" "''route for host''" "'' '' @ ToLower (uc_lower u) rest"] by simp
  then show ?thesis
    by (simp add: classifyDialError_def Let_def)
qed

theorem route_not_found_classified_witness:
  "\<exists>e d'. DialRoute ascii_tables (\<lambda>a t. Inl (errors_New ''refused'')) demo_dialer ''nope'' = (Inl e, [], d')
     \<and> classifyDialError ascii_tables e = ''route_not_found''"
proof -
  have n: "socks_normalizeHost ascii_tables ''nope'' = ''nope''" "normalizeHost ascii_tables ''nope'' = ''nope''"
    by code_simp+
  let ?e = "wrap_pick_error ascii_tables ''nope'' err_RouteNotFound"
  have "Pick ascii_tables demo_router ''nope'' = (Inl err_RouteNotFound, demo_router)"
    by (simp add: Pick_cases n) (simp add: demo_router_def gm_get_def)
  then have d: "DialRoute ascii_tables (\<lambda>a t. Inl (errors_New ''refused'')) demo_dialer ''nope'' = (Inl ?e, [], demo_dialer)"
    by (simp add: DialRoute_def dial_picked_def currentRouter_def demo_dialer_def newRouteDialer_def sem_make_def n)
  have "errors_Is ?e ErrRouteNotFound"
    by (simp add: wrap_pick_error_def err_RouteNotFound_def errors_Is_def Let_def)
  then show ?thesis
    using route_not_found_classified [OF d] d by auto
qed

text \<open>The reason of a failed dial is read off the error text, which contains the host name: a
  refused connection to a host whose name contains \<open>timeout\<close> is counted as a timeout.\<close>

theorem refused_dial_counted_as_timeout:
  "classifyDialError ascii_tables (errorf_w (''dial backend '' @ Quote (uc_print ascii_tables) ''10.0.0.1:80'' @ '' for host ''
       @ Quote (uc_print ascii_tables) ''timeouts.internal'') (errors_New ''connect: connection refused'')) = ''timeout''
   \<and> classifyDialError ascii_tables (errorf_w (''dial backend '' @ Quote (uc_print ascii_tables) ''10.0.0.1:80'' @ '' for host ''
       @ Quote (uc_print ascii_tables) ''api.internal'') (errors_New ''connect: connection refused'')) = ''dial_error''"
  by (rule conjI; code_simp)

end
