(* ===== verification/Session_Steps.thy ===== *)
theory Session_Steps
  imports Handler
begin

text \<open>
  A session in stages. \<open>handleConnection\<close> of \<open>internal/socks/handler.go\<close> is cut at the calls that may wait for long or for good: the
  negotiation with the client, the dial, the question to the discoverer (which waits for the
  main loop to answer a reload request), the reply and the relay. Between two stages other goroutines may run. The stages of a session
  that is not disturbed compute exactly \<open>handleConnection\<close>.
\<close>

section \<open>Stages\<close>

text \<open>Where a session is after the negotiation: at the head of the loop with the number of the attempt, in \<open>Discover\<close> for an address
  that no route has or for a name without a route, before the reply, in the relay, or returned.\<close>

datatype stage =
    Connecting request nat
  | AskingIP request string
  | AskingName request string string go_error
  | Replying string string backend_conn
  | Relaying string string backend_conn
  | Finished "go_error option"

definition session_open :: "env \<Rightarrow> int \<Rightarrow> 'x session \<Rightarrow> stage \<times> 'x session" where
  "session_open E readTimeout s0 =
     (case handleHandshake (arm_read readTimeout (en_clock E NowReadGreeting) (s_client s0)) of
        (Inl e, c1) \<Rightarrow> (Finished (Some e), on_metrics (IncConnectionError ''handshake'') (s0\<lparr>s_client := c1\<rparr>))
      | (Inr _, c1) \<Rightarrow>
          (let (r, c2) = readRequest (arm_read readTimeout (en_clock E NowReadRequest) c1); s2 = after_request E c2 s0
           in case r of
                Inl e \<Rightarrow> (Finished (Some e), on_metrics (IncConnectionError ''request'') s2)
              | Inr req \<Rightarrow> (Connecting req 0, s2)))"

text \<open>The discoverer is asked only if there is one and only in the first attempt.\<close>

definition may_ask :: "'x discover option \<Rightarrow> nat \<Rightarrow> bool" where
  "may_ask disc attempt \<longleftrightarrow> disc \<noteq> None \<and> attempt = 0"

definition not_listed :: "string \<Rightarrow> go_error" where
  "not_listed addr = errors_New (''ip '' @ addr @ '' not in any route (whitelist)'')"

definition connect_stage :: "env \<Rightarrow> 'x discover option \<Rightarrow> request \<Rightarrow> nat \<Rightarrow> 'x session \<Rightarrow> stage \<times> 'x session" where
  "connect_stage E disc req attempt s =
     (case route_of (en_unicode E) (currentRouter (s_dialer s)) req of
        Inl addr \<Rightarrow>
          if may_ask disc attempt then (AskingIP req addr, s) else (Finished (Some (not_listed addr)), deny_ip addr s)
      | Inr routeHost \<Rightarrow>
          (case dial_attempt E req attempt routeHost s of
             (Inr b, backendAddr, s1) \<Rightarrow> (Replying routeHost backendAddr b, s1)
           | (Inl e, backendAddr, s1) \<Rightarrow>
               if errors_Is e ErrRouteNotFound \<and> may_ask disc attempt then (AskingName req routeHost backendAddr e, s1)
               else (Finished (Some e), deny_dial (en_unicode E) routeHost backendAddr e s1)))"

definition reply_stage :: "env \<Rightarrow> int \<Rightarrow> int \<Rightarrow> string \<Rightarrow> string \<Rightarrow> backend_conn \<Rightarrow> 'x session \<Rightarrow> stage \<times> 'x session" where
  "reply_stage E writeTimeout idleTimeout routeHost backendAddr b s =
     (case writeSuccessReply (arm_write writeTimeout (en_clock E NowWrite) (s_client s)) (bk_local b) of
        (Inl e, c2) \<Rightarrow>
          (Finished (Some (errorf_w ''write success reply'' e)),
           s\<lparr>s_client := c2, s_backend := close_backend (bk_conn b) b,
             s_metrics := IncConnectionError ''reply'' (IncRequestByBackend routeHost backendAddr ''reply_error'' (s_metrics s))\<rparr>)
      | (Inr _, c2) \<Rightarrow>
          (Relaying routeHost backendAddr (b\<lparr>bk_conn := arm_both idleTimeout (en_clock E NowIdleBackend) (bk_conn b)\<rparr>),
           s\<lparr>s_client := arm_both idleTimeout (en_clock E NowIdleClient) (c2\<lparr>writeDeadline := None\<rparr>),
             s_metrics := IncTCPState ''established'' (s_metrics s)\<rparr>))"

definition relay_stage :: "env \<Rightarrow> string \<Rightarrow> string \<Rightarrow> backend_conn \<Rightarrow> 'x session \<Rightarrow> stage \<times> 'x session" where
  "relay_stage E routeHost backendAddr b s =
     (let ((relayErr, closeType), c4, b4, m) = relay E (s_client s) (bk_conn b) (s_metrics s);
          m' = IncTCPState closeType m;
          s' = s\<lparr>s_client := c4, s_backend := close_backend b4 b\<rparr>
      in case relayErr of
           Some e \<Rightarrow> (Finished (Some e), s'\<lparr>s_metrics := IncConnectionError ''relay''
             (IncRequestByBackend routeHost backendAddr ''relay_error'' m')\<rparr>)
         | None \<Rightarrow> (Finished None, s'\<lparr>s_metrics := ObserveSessionDuration (en_clock E NowEnd - en_clock E NowSession)
             (IncRequestByBackend routeHost backendAddr ''success'' m')\<rparr>))"

fun session_next :: "env \<Rightarrow> 'x discover option \<Rightarrow> int \<Rightarrow> int \<Rightarrow> stage \<Rightarrow> 'x session \<Rightarrow> stage \<times> 'x session" where
  "session_next E disc wt it (Connecting req attempt) s = connect_stage E disc req attempt s"
| "session_next E disc wt it (AskingIP req addr) s =
     (case try_discover disc 0 (req_host req) (req_port req) s of
        (True, s1) \<Rightarrow> (Connecting req 1, s1)
      | (False, s1) \<Rightarrow> (Finished (Some (not_listed addr)), deny_ip addr s1))"
| "session_next E disc wt it (AskingName req routeHost backendAddr e) s =
     (case try_discover disc 0 routeHost (req_port req) s of
        (True, s1) \<Rightarrow> (Connecting req 1, s1)
      | (False, s1) \<Rightarrow> (Finished (Some e), deny_dial (en_unicode E) routeHost backendAddr e s1))"
| "session_next E disc wt it (Replying routeHost backendAddr b) s = reply_stage E wt it routeHost backendAddr b s"
| "session_next E disc wt it (Relaying routeHost backendAddr b) s = relay_stage E routeHost backendAddr b s"
| "session_next E disc wt it (Finished r) s = (Finished r, s)"

section \<open>Progress\<close>

fun stage_work :: "stage \<Rightarrow> nat" where
  "stage_work (Connecting req n) = (if n = 0 then 5 else 3)"
| "stage_work (AskingIP req addr) = 4" | "stage_work (AskingName req h a e) = 4"
| "stage_work (Replying h a b) = 2" | "stage_work (Relaying h a b) = 1" | "stage_work (Finished r) = 0"

lemma stage_defs_work:
  "stage_work (fst (connect_stage E disc req n s)) < stage_work (Connecting req n)"
  "stage_work (fst (reply_stage E wt it h a b s)) < stage_work (Replying h a b)"
  "stage_work (fst (relay_stage E h a b s)) < stage_work (Relaying h a b)"
  by (auto simp: connect_stage_def reply_stage_def relay_stage_def may_ask_def Let_def
      split: sum.split prod.split option.split)

lemma session_next_work:
  assumes "stage_work st \<noteq> 0"
  shows "stage_work (fst (session_next E disc wt it st s)) < stage_work st"
proof (cases st)
  case (Connecting req n)
  then show ?thesis
    using stage_defs_work(1) [of E disc req n s] by simp
next
  case (Replying h a b)
  then show ?thesis
    using stage_defs_work(2) [of E wt it h a b s] by simp
next
  case (Relaying h a b)
  then show ?thesis
    using stage_defs_work(3) [of E h a b s] by simp
qed (use assms in \<open>auto split: prod.split bool.split\<close>)

section \<open>The stages compute the session\<close>

definition stages :: "env \<Rightarrow> 'x discover option \<Rightarrow> int \<Rightarrow> int \<Rightarrow> nat \<Rightarrow> stage \<times> 'x session \<Rightarrow> stage \<times> 'x session" where
  "stages E disc wt it n = (\<lambda>(st, s). session_next E disc wt it st s) ^^ n"

lemma stages_step:
  "stages E disc wt it (Suc n) (st, s) = stages E disc wt it n (session_next E disc wt it st s)"
  "stages E disc wt it n (Finished r, s) = (Finished r, s)"
  "stages E disc wt it 0 p = p"
  by (simp_all add: stages_def funpow_Suc_right del: funpow.simps) (induction n; simp)

lemma stages_tunnel:
  assumes "serve_tunnel E wt it h a b s = (r, s')" and "2 \<le> n"
  shows "stages E disc wt it n (Replying h a b, s) = (Finished r, s')"
proof -
  obtain m where n: "n = Suc (Suc m)"
    using assms(2) by (metis Suc_le_D Suc_le_mono numeral_2_eq_2)
  have c: "close_backend x (b\<lparr>bk_conn := y\<rparr>) = close_backend x b" for x y
    by (simp add: close_backend_def)
  show ?thesis
    using assms(1)
    by (auto simp: n stages_step reply_stage_def relay_stage_def serve_tunnel_def c Let_def split: sum.splits prod.splits option.splits)
qed

text \<open>The end of a session after the loop.\<close>

definition session_end ::
  "env \<Rightarrow> int \<Rightarrow> int \<Rightarrow> (string \<times> string \<times> backend_conn) result \<times> 'x session \<Rightarrow> stage \<times> 'x session" where
  "session_end E wt it rs = (case rs of
      (Inl e, s) \<Rightarrow> (Finished (Some e), s)
    | (Inr (h, a, b), s) \<Rightarrow> let (r, s') = serve_tunnel E wt it h a b s in (Finished r, s'))"

lemma try_discover_none: "\<not> may_ask disc n \<Longrightarrow> try_discover disc n h p s = (False, s)"
  by (auto simp: may_ask_def try_discover_def split: option.split)

lemma body_no_ask:
  assumes "\<not> may_ask disc n"
  shows "\<exists>rs. connect_body E disc req n s = Inl rs"
proof (cases "connect_body E disc req n s")
  case (Inr s')
  then show ?thesis
    by (cases rule: connect_body_Inr) (simp_all add: try_discover_none [OF assms])
qed simp

lemma stages_body_end:
  assumes "connect_body E disc req n s = Inl rs" and "\<not> may_ask disc n" and "3 \<le> k"
  shows "stages E disc wt it k (Connecting req n, s) = session_end E wt it rs"
proof -
  obtain m where k: "k = Suc m" "2 \<le> m"
    using assms(3) by (metis Suc_le_D Suc_le_mono numeral_2_eq_2 numeral_3_eq_3)
  show ?thesis
    using assms(1,2) stages_tunnel [of E wt it _ _ _ _ _ _ m disc] k(2)
    by (auto simp: k(1) stages_step connect_stage_def connect_body_def try_discover_none not_listed_def session_end_def
        split: sum.splits prod.splits bool.splits if_splits)
qed

lemma stages_loop_again:
  assumes "n \<noteq> 0" and "3 \<le> k"
  shows "stages E disc wt it k (Connecting req n, s) = session_end E wt it (connect_loop E disc req n s)"
proof -
  have "\<not> may_ask disc n"
    using assms(1) by (simp add: may_ask_def)
  moreover from this obtain rs where "connect_body E disc req n s = Inl rs"
    using body_no_ask by blast
  ultimately show ?thesis
    using stages_body_end [of E disc req n s rs k wt it] assms(2) by (simp add: connect_loop.simps)
qed

lemma stages_numerals:
  "stages E disc wt it 5 (st, s) = stages E disc wt it 4 (session_next E disc wt it st s)"
  "stages E disc wt it 4 (st, s) = stages E disc wt it 3 (session_next E disc wt it st s)"
  using stages_step(1) [of E disc wt it 4] stages_step(1) [of E disc wt it 3] by simp_all

lemma stages_again:
  "stages E disc wt it 3 (Connecting req 1, s) = session_end E wt it (connect_loop E disc req (Suc 0) s)"
  using stages_loop_again [of "Suc 0" 3 E disc wt it req s] by simp

lemma stages_ip:
  assumes "may_ask disc 0" and "route_of (en_unicode E) (currentRouter (s_dialer s)) req = Inl addr"
  shows "stages E disc wt it 5 (Connecting req 0, s) = session_end E wt it (connect_loop E disc req 0 s)"
proof -
  have c: "stages E disc wt it 5 (Connecting req 0, s) = stages E disc wt it 3 (session_next E disc wt it (AskingIP req addr) s)"
    using assms by (simp add: stages_numerals connect_stage_def)
  obtain b s1 where "try_discover disc 0 (req_host req) (req_port req) s = (b, s1)"
    by fastforce
  then show ?thesis
    unfolding c connect_loop.simps [of E disc req 0 s] using assms(2) stages_again
    by (cases b) (simp_all add: connect_body_def stages_step(2) session_end_def not_listed_def)
qed

lemma stages_name:
  assumes "may_ask disc 0" and r: "route_of (en_unicode E) (currentRouter (s_dialer s)) req = Inr h"
    and d: "dial_attempt E req 0 h s = (Inl e, a, s1)" and "errors_Is e ErrRouteNotFound"
  shows "stages E disc wt it 5 (Connecting req 0, s) = session_end E wt it (connect_loop E disc req 0 s)"
proof -
  have c: "stages E disc wt it 5 (Connecting req 0, s) = stages E disc wt it 3 (session_next E disc wt it (AskingName req h a e) s1)"
    using assms by (simp add: stages_numerals connect_stage_def)
  obtain b s2 where "try_discover disc 0 h (req_port req) s1 = (b, s2)"
    by fastforce
  then show ?thesis
    unfolding c connect_loop.simps [of E disc req 0 s] using r d assms(4) stages_again
    by (cases b) (simp_all add: connect_body_def stages_step(2) session_end_def)
qed

lemma stages_loop:
  "stages E disc wt it 5 (Connecting req 0, s) = session_end E wt it (connect_loop E disc req 0 s)"
proof (cases "may_ask disc 0")
  case False
  obtain rs where "connect_body E disc req 0 s = Inl rs"
    using body_no_ask [OF False] by blast
  then show ?thesis
    using stages_body_end [of E disc req 0 s rs 5 wt it] False by (simp add: connect_loop.simps)
next
  case ask: True
  note loop = connect_loop.simps [of E disc req 0 s]
  show ?thesis
  proof (cases "route_of (en_unicode E) (currentRouter (s_dialer s)) req")
    case (Inr h)
    obtain r a s1 where d: "dial_attempt E req 0 h s = (r, a, s1)"
      using prod_cases3 by blast
    show ?thesis
    proof (cases r)
      case b: (Inr b)
      then show ?thesis
        using Inr d stages_tunnel [of E wt it h a b s1 _ _ 4 disc]
        by (cases "serve_tunnel E wt it h a b s1") (simp add: stages_numerals(1) connect_stage_def loop connect_body_def session_end_def)
    next
      case e: (Inl e)
      then show ?thesis
        using Inr d stages_name [OF ask Inr, of e a s1 wt it]
        by (cases "errors_Is e ErrRouteNotFound")
          (simp_all add: stages_numerals(1) connect_stage_def loop connect_body_def session_end_def stages_step(2))
    qed
  qed (rule stages_ip [OF ask])
qed

text \<open>The stages of an undisturbed session compute \<open>handleConnection\<close>: five steps after the negotiation it has returned, with its
  result and its state.\<close>

theorem session_stages:
  assumes "handleConnection E disc rt wt it s = (r, s')"
  shows "stages E disc wt it 5 (session_open E rt s) = (Finished r, s')"
  using assms
proof (cases rule: handleConnection_cases)
  case (denied c1 req c e)
  then show ?thesis
    by (simp add: session_open_def stages_loop session_end_def)
next
  case (tunnel c1 req c h a b s1)
  then show ?thesis
    by (simp add: session_open_def stages_loop session_end_def)
qed (simp_all add: session_open_def stages_step)

section \<open>Metrics of a stage\<close>

text \<open>No stage touches the gauge of active connections.\<close>

definition active_of :: "collector \<Rightarrow> 64 word option" where
  "active_of = map_option connectionsActive"

lemma active_of_simps [simp]:
  "active_of (IncTCPState a m) = active_of m" "active_of (ObserveHandshakeLatency d m) = active_of m"
  "active_of (IncRequest a m) = active_of m" "active_of (IncRequestByBackend h b r m) = active_of m"
  "active_of (IncConnectionError a m) = active_of m" "active_of (IncRouteFailure h r m) = active_of m"
  "active_of (ObserveBackendDialLatency d m) = active_of m" "active_of (IncBackendDialFailure h r m) = active_of m"
  "active_of (AddRelayBytes a n m) = active_of m" "active_of (ObserveSessionDuration d m) = active_of m"
  by (cases m; simp add: active_of_def collector_ops)+

lemma session_open_active: "active_of (s_metrics (snd (session_open E rt s))) = active_of (s_metrics s)"
  by (auto simp: session_open_def after_request_def on_metrics_def Let_def split: sum.split prod.split)

lemma dial_attempt_active: "dial_attempt E req n h s = (r, a, s') \<Longrightarrow> active_of (s_metrics s') = active_of (s_metrics s)"
  by (auto simp: dial_attempt_def Let_def split: prod.splits)

lemma deny_active [simp]:
  "active_of (s_metrics (deny_ip a s)) = active_of (s_metrics s)"
  "active_of (s_metrics (deny_dial u h a e s)) = active_of (s_metrics s)"
  by (simp_all add: deny_ip_def deny_dial_def Let_def)

lemma relay_active: "relay E c b m = (x, c', b', m') \<Longrightarrow> active_of m' = active_of m"
  by (auto simp: relay_def copyHalf_def Let_def split: prod.splits)

lemma session_next_active: "active_of (s_metrics (snd (session_next E disc wt it st s))) = active_of (s_metrics s)"
proof (cases st)
  case (Connecting req n)
  then show ?thesis
    by (auto simp: connect_stage_def dest!: dial_attempt_active split: sum.split prod.split)
next
  case (Replying h a b)
  then show ?thesis
    by (simp add: reply_stage_def split: prod.split sum.split)
next
  case (Relaying h a b)
  then show ?thesis
    by (auto simp: relay_stage_def Let_def dest!: relay_active split: prod.split option.split)
qed (auto dest!: try_discover_frame split: prod.split bool.split)

end
