(* ===== verification/Server.thy ===== *)
theory Server
  imports Session_Steps
begin

text \<open>
  The server, \<open>internal/socks/server.go\<close>, as a step relation. The accept loop and the goroutine of each
  client are separate threads; a step is one action of one of them: a return of \<open>Accept\<close>, one
  of the statements that register the client, one stage of the session (\<open>Session_Steps\<close>), or one of the deferred calls
  of \<open>serveClient\<close> in their order (token, gauge, connection, wait group). \<open>Shutdown\<close> and
  \<open>UpdateRouter\<close> may come at any time. A session that waits, for its peer or for the answer to a reload request, is one whose
  next stage is not taken. A stage is one step here; its dial and its relay
  at the grain of single shared accesses are in \<open>Dialing\<close> and \<open>Relay_Steps\<close>. TCP keep-alive options are not
  modelled.
\<close>

section \<open>State\<close>

text \<open>Where the accept loop is: before \<open>Serve\<close>, in \<open>Accept\<close>, at one of the three statements
  that follow a token, or returned.\<close>

datatype accept_pc =
    NotStarted
  | Waiting
  | HasToken conn
  | IsCounted conn
  | IsAdded conn
  | Returned "go_error option"

text \<open>Where a client's goroutine is: at the start of \<open>handleConnection\<close>, at a later stage of it, or before a deferred call.
  A session keeps what the outside answers to it.\<close>

datatype phase =
    Running conn
  | InSession env stage conn
  | ReleaseToken conn
  | DecGauge conn
  | CloseConn conn
  | CallDone conn
  | Gone conn

record 'x server =
  sv_listenAddr :: string
  sv_keepAlive :: int
  sv_readTimeout :: int
  sv_writeTimeout :: int
  sv_idleTimeout :: int
  sv_dialer :: routeDialer
  sv_discoverer :: "'x discover option"
  sv_metrics :: collector
  sv_connLimitSem :: sem
  sv_listener :: "bool option"
  sv_wg :: nat
  sv_pc :: accept_pc
  sv_sessions :: "phase list"
  sv_rejected :: "conn list"
  sv_ext :: 'x
  sv_log :: "string list"

text \<open>\<open>sv_listener\<close> is \<open>None\<close> before \<open>Serve\<close> has stored a listener, then whether it is open. \<open>sv_rejected\<close> holds
  the connections the accept loop closed itself.\<close>

text \<open>What \<open>Accept\<close> returns: a TCP connection, or another kind with the name of its Go type.\<close>

datatype accepted = TcpClient conn | OtherClient string conn

section \<open>Operations\<close>

definition server_New ::
  "string \<Rightarrow> Router \<Rightarrow> int \<Rightarrow> int \<Rightarrow> int \<Rightarrow> int \<Rightarrow> int \<Rightarrow> int \<Rightarrow> int \<Rightarrow> collector \<Rightarrow> 'x discover option \<Rightarrow> 'x \<Rightarrow> 'x server" where
  "server_New listenAddr r dialTimeout keepAlive maxConnections maxInflightDials readTimeout writeTimeout idleTimeout
     m disc x =
     \<lparr>sv_listenAddr = listenAddr, sv_keepAlive = keepAlive, sv_readTimeout = readTimeout,
      sv_writeTimeout = writeTimeout, sv_idleTimeout = idleTimeout,
      sv_dialer = newRouteDialer r dialTimeout keepAlive maxInflightDials, sv_discoverer = disc,
      sv_metrics = m, sv_connLimitSem = sem_make maxConnections, sv_listener = None, sv_wg = 0,
      sv_pc = NotStarted, sv_sessions = [], sv_rejected = [], sv_ext = x, sv_log = []\<rparr>"

definition Serve_listen :: "unit result \<Rightarrow> 'x server \<Rightarrow> 'x server" where
  "Serve_listen res s =
     (case res of
        Inl e \<Rightarrow> s\<lparr>sv_pc := Returned (Some (errorf_w (''listen '' @ sv_listenAddr s) e))\<rparr>
      | Inr _ \<Rightarrow> s\<lparr>sv_listener := Some True, sv_pc := Waiting,
                  sv_log := sv_log s @ [''socks5: listening on '' @ sv_listenAddr s]\<rparr>)"

definition Serve_accept :: "accepted result \<Rightarrow> 'x server \<Rightarrow> 'x server" where
  "Serve_accept res s =
     (case res of
        Inl e \<Rightarrow> s\<lparr>sv_pc := Returned (if errors_Is e NetErrClosed then None else Some (errorf_w ''accept'' e))\<rparr>
      | Inr (OtherClient ty c) \<Rightarrow> s\<lparr>sv_log := sv_log s @ [''socks5: rejecting non-tcp connection type='' @ ty],
          sv_rejected := sv_rejected s @ [c\<lparr>closed := True\<rparr>]\<rparr>
      | Inr (TcpClient c) \<Rightarrow>
          (case sem_try (sv_connLimitSem s) of
             None \<Rightarrow> s\<lparr>sv_metrics := IncConnectionError ''conn_limit'' (sv_metrics s),
               sv_rejected := sv_rejected s @ [c\<lparr>closed := True\<rparr>]\<rparr>
           | Some q \<Rightarrow> s\<lparr>sv_connLimitSem := q, sv_pc := HasToken c\<rparr>))"

definition Serve_count :: "conn \<Rightarrow> 'x server \<Rightarrow> 'x server" where
  "Serve_count c s = s\<lparr>sv_metrics := IncTCPState ''syn'' (IncConnectionAccepted (sv_metrics s)), sv_pc := IsCounted c\<rparr>"

definition Serve_add :: "conn \<Rightarrow> 'x server \<Rightarrow> 'x server" where
  "Serve_add c s = s\<lparr>sv_wg := Suc (sv_wg s), sv_pc := IsAdded c\<rparr>"

definition Serve_go :: "conn \<Rightarrow> 'x server \<Rightarrow> 'x server" where
  "Serve_go c s = s\<lparr>sv_sessions := sv_sessions s @ [Running c], sv_pc := Waiting\<rparr>"

text \<open>\<open>cl\<close> is the result of closing the listener.\<close>

definition Shutdown :: "go_error option \<Rightarrow> 'x server \<Rightarrow> go_error option \<times> 'x server" where
  "Shutdown cl s = (case sv_listener s of None \<Rightarrow> (None, s) | Some _ \<Rightarrow> (cl, s\<lparr>sv_listener := Some False\<rparr>))"

definition server_UpdateRouter :: "Router \<Rightarrow> 'x server \<Rightarrow> 'x server" where
  "server_UpdateRouter r s = s\<lparr>sv_dialer := UpdateRouter r (sv_dialer s)\<rparr>"

text \<open>The result of \<open>Wait\<close>: true once the wait group is seen at zero, false when the timer fires.\<close>

inductive Wait :: "'x server \<Rightarrow> bool \<Rightarrow> bool" where
  finished: "sv_wg s = 0 \<Longrightarrow> Wait s True"
| timer: "Wait s False"

text \<open>The session of \<open>serveClient\<close>, stage by stage on the state all sessions share, and its deferred calls, last deferred first.\<close>

definition session_of :: "conn \<Rightarrow> 'x server \<Rightarrow> 'x session" where
  "session_of c s = \<lparr>s_client = c, s_dialer = sv_dialer s, s_metrics = sv_metrics s, s_ext = sv_ext s, s_backend = None\<rparr>"

definition phase_after :: "env \<Rightarrow> stage \<Rightarrow> conn \<Rightarrow> phase" where
  "phase_after E st c = (case st of Finished r \<Rightarrow> ReleaseToken c | _ \<Rightarrow> InSession E st c)"

definition log_after :: "stage \<Rightarrow> conn \<Rightarrow> string list" where
  "log_after st c = (case st of
      Finished (Some e) \<Rightarrow> [''socks5: connection error from='' @ remoteAddr c @ '' err='' @ err_msg e]
    | _ \<Rightarrow> [])"

definition session_put :: "env \<Rightarrow> nat \<Rightarrow> stage \<times> 'x session \<Rightarrow> 'x server \<Rightarrow> 'x server" where
  "session_put E i p s = (case p of (st, ss) \<Rightarrow>
     s\<lparr>sv_dialer := s_dialer ss, sv_metrics := s_metrics ss, sv_ext := s_ext ss,
       sv_sessions := (sv_sessions s)[i := phase_after E st (s_client ss)],
       sv_log := sv_log s @ log_after st (s_client ss)\<rparr>)"

definition serveClient_open :: "env \<Rightarrow> nat \<Rightarrow> conn \<Rightarrow> 'x server \<Rightarrow> 'x server" where
  "serveClient_open E i c s = session_put E i (session_open E (sv_readTimeout s) (session_of c s)) s"

definition serveClient_next :: "env \<Rightarrow> nat \<Rightarrow> stage \<Rightarrow> conn \<Rightarrow> 'x server \<Rightarrow> 'x server" where
  "serveClient_next E i st c s =
     session_put E i (session_next E (sv_discoverer s) (sv_writeTimeout s) (sv_idleTimeout s) st (session_of c s)) s"

fun serveClient_defer :: "nat \<Rightarrow> phase \<Rightarrow> 'x server \<Rightarrow> 'x server" where
  "serveClient_defer i (ReleaseToken c) s =
     s\<lparr>sv_connLimitSem := sem_release (sv_connLimitSem s), sv_sessions := (sv_sessions s)[i := DecGauge c]\<rparr>"
| "serveClient_defer i (DecGauge c) s =
     s\<lparr>sv_metrics := DecConnectionActive (sv_metrics s), sv_sessions := (sv_sessions s)[i := CloseConn c]\<rparr>"
| "serveClient_defer i (CloseConn c) s =
     s\<lparr>sv_sessions := (sv_sessions s)[i := CallDone (c\<lparr>closed := True\<rparr>)]\<rparr>"
| "serveClient_defer i (CallDone c) s =
     s\<lparr>sv_wg := sv_wg s - 1, sv_sessions := (sv_sessions s)[i := Gone c]\<rparr>"
| "serveClient_defer i p s = s"

fun is_deferred :: "phase \<Rightarrow> bool" where
  "is_deferred (Running c) = False" | "is_deferred (InSession E st c) = False" | "is_deferred (Gone c) = False"
| "is_deferred _ = True"

section \<open>Steps\<close>

inductive step :: "'x server \<Rightarrow> 'x server \<Rightarrow> bool" where
  listen: "sv_pc s = NotStarted \<Longrightarrow> step s (Serve_listen res s)"
| accept: "sv_pc s = Waiting \<Longrightarrow> sv_listener s = Some True \<Longrightarrow> step s (Serve_accept res s)"
| accept_closed: "sv_pc s = Waiting \<Longrightarrow> sv_listener s = Some False \<Longrightarrow> errors_Is e NetErrClosed \<Longrightarrow>
    step s (Serve_accept (Inl e) s)"
| count: "sv_pc s = HasToken c \<Longrightarrow> step s (Serve_count c s)"
| add: "sv_pc s = IsCounted c \<Longrightarrow> step s (Serve_add c s)"
| go: "sv_pc s = IsAdded c \<Longrightarrow> step s (Serve_go c s)"
| handshake: "i < length (sv_sessions s) \<Longrightarrow> sv_sessions s ! i = Running c \<Longrightarrow> step s (serveClient_open E i c s)"
| session: "i < length (sv_sessions s) \<Longrightarrow> sv_sessions s ! i = InSession E st c \<Longrightarrow> step s (serveClient_next E i st c s)"
| deferred: "i < length (sv_sessions s) \<Longrightarrow> sv_sessions s ! i = p \<Longrightarrow> is_deferred p \<Longrightarrow> step s (serveClient_defer i p s)"
| shutdown: "step s (snd (Shutdown cl s))"
| update: "step s (server_UpdateRouter r s)"

inductive_cases stepE: "step s s'"

inductive reachable :: "'x server \<Rightarrow> 'x server \<Rightarrow> bool" for s0 where
  init: "reachable s0 s0"
| more: "reachable s0 s \<Longrightarrow> step s s' \<Longrightarrow> reachable s0 s'"

section \<open>The invariant\<close>

text \<open>Which threads hold a token of the connection limit, are counted by the gauge, are counted by
  the wait group.\<close>

fun holds_token :: "phase \<Rightarrow> bool" where
  "holds_token (Running c) = True" | "holds_token (InSession E st c) = True" | "holds_token (ReleaseToken c) = True" | "holds_token _ = False"

fun in_gauge :: "phase \<Rightarrow> bool" where
  "in_gauge (Running c) = True" | "in_gauge (InSession E st c) = True" | "in_gauge (ReleaseToken c) = True" | "in_gauge (DecGauge c) = True" | "in_gauge _ = False"

fun in_group :: "phase \<Rightarrow> bool" where
  "in_group (Gone c) = False" | "in_group _ = True"

fun pc_token :: "accept_pc \<Rightarrow> nat" where
  "pc_token (HasToken c) = 1" | "pc_token (IsCounted c) = 1" | "pc_token (IsAdded c) = 1" | "pc_token _ = 0"

fun pc_gauge :: "accept_pc \<Rightarrow> nat" where
  "pc_gauge (IsCounted c) = 1" | "pc_gauge (IsAdded c) = 1" | "pc_gauge _ = 0"

fun pc_group :: "accept_pc \<Rightarrow> nat" where
  "pc_group (IsAdded c) = 1" | "pc_group _ = 0"

definition many :: "(phase \<Rightarrow> bool) \<Rightarrow> phase list \<Rightarrow> nat" where
  "many P ps = length (filter P ps)"

definition gauge :: "'x server \<Rightarrow> 64 word" where
  "gauge s = (case sv_metrics s of None \<Rightarrow> 0 | Some c \<Rightarrow> connectionsActive c)"

definition limit_ok :: "'x server \<Rightarrow> bool" where
  "limit_ok s = (case sv_connLimitSem s of None \<Rightarrow> True
     | Some (cap, n) \<Rightarrow> n = many holds_token (sv_sessions s) + pc_token (sv_pc s) \<and> n \<le> cap)"

definition server_inv :: "'x server \<Rightarrow> bool" where
  "server_inv s \<longleftrightarrow> limit_ok s
     \<and> sv_metrics s \<noteq> None \<and> gauge s = of_nat (many in_gauge (sv_sessions s) + pc_gauge (sv_pc s))
     \<and> sv_wg s = many in_group (sv_sessions s) + pc_group (sv_pc s)"

lemma many_update:
  assumes "i < length ps" and "ps ! i = p"
  shows "many P (ps[i := q]) + of_bool (P p) = many P ps + of_bool (P q)"
  using length_filter_update [OF assms(1), of P q] assms(2) by (simp add: many_def)

lemma inv_listen: "sv_pc s = NotStarted \<Longrightarrow> server_inv s \<Longrightarrow> server_inv (Serve_listen res s)"
  by (auto simp: Serve_listen_def server_inv_def limit_ok_def gauge_def many_def split: sum.split option.splits)

lemma inv_accept: "sv_pc s = Waiting \<Longrightarrow> server_inv s \<Longrightarrow> server_inv (Serve_accept res s)"
  by (auto simp: Serve_accept_def server_inv_def limit_ok_def gauge_def many_def IncConnectionError_def
      split: sum.split option.splits accepted.split prod.splits if_splits elim: sem_try.elims)

lemma inv_count: "sv_pc s = HasToken c \<Longrightarrow> server_inv s \<Longrightarrow> server_inv (Serve_count c s)"
  by (auto simp: Serve_count_def server_inv_def limit_ok_def gauge_def many_def IncTCPState_def
      IncConnectionAccepted_def split: option.splits)

lemma inv_add: "sv_pc s = IsCounted c \<Longrightarrow> server_inv s \<Longrightarrow> server_inv (Serve_add c s)"
  by (auto simp: Serve_add_def server_inv_def limit_ok_def gauge_def many_def split: option.splits)

lemma inv_go: "sv_pc s = IsAdded c \<Longrightarrow> server_inv s \<Longrightarrow> server_inv (Serve_go c s)"
  by (auto simp: Serve_go_def server_inv_def limit_ok_def gauge_def many_def split: option.splits)

lemma inv_shutdown: "server_inv s \<Longrightarrow> server_inv (snd (Shutdown cl s))"
  by (auto simp: Shutdown_def server_inv_def limit_ok_def gauge_def many_def split: option.splits)

lemma inv_update: "server_inv s \<Longrightarrow> server_inv (server_UpdateRouter r s)"
  by (auto simp: server_UpdateRouter_def server_inv_def limit_ok_def gauge_def many_def split: option.splits)

lemma count_list_zero: "x \<notin> set xs \<Longrightarrow> count_list xs x = 0"
  by (simp add: count_list_0_iff)

text \<open>A stage leaves the gauge alone, and its thread keeps token, gauge and wait group.\<close>

lemma phase_after_books [simp]:
  "holds_token (phase_after E st c)" "in_gauge (phase_after E st c)" "in_group (phase_after E st c)"
  by (cases st; simp add: phase_after_def)+

lemma inv_session_put:
  assumes "i < length (sv_sessions s)" and "holds_token (sv_sessions s ! i)" and "server_inv s"
    and "active_of (s_metrics (snd p)) = active_of (sv_metrics s)"
  shows "server_inv (session_put E i p s)"
proof -
  obtain st ss where p: "p = (st, ss)" by fastforce
  obtain m m' where m: "sv_metrics s = Some m" "s_metrics ss = Some m'" "connectionsActive m' = connectionsActive m"
    using assms(3,4) by (auto simp: p server_inv_def active_of_def)
  have "in_gauge (sv_sessions s ! i)" and "in_group (sv_sessions s ! i)"
    using assms(2) by (cases "sv_sessions s ! i"; simp)+
  then show ?thesis
    using assms(2,3) many_update [OF assms(1) refl, of holds_token "phase_after E st (s_client ss)"]
      many_update [OF assms(1) refl, of in_gauge "phase_after E st (s_client ss)"]
      many_update [OF assms(1) refl, of in_group "phase_after E st (s_client ss)"]
    by (auto simp: p session_put_def server_inv_def limit_ok_def gauge_def m split: option.splits)
qed

lemma inv_open:
  "i < length (sv_sessions s) \<Longrightarrow> sv_sessions s ! i = Running c \<Longrightarrow> server_inv s \<Longrightarrow> server_inv (serveClient_open E i c s)"
  unfolding serveClient_open_def by (rule inv_session_put) (simp_all add: session_open_active session_of_def)

lemma inv_next:
  "i < length (sv_sessions s) \<Longrightarrow> sv_sessions s ! i = InSession E st c \<Longrightarrow> server_inv s \<Longrightarrow> server_inv (serveClient_next E i st c s)"
  unfolding serveClient_next_def by (rule inv_session_put) (simp_all add: session_next_active session_of_def)

lemma inv_defer:
  assumes "i < length (sv_sessions s)" and "sv_sessions s ! i = p" and "is_deferred p" and "server_inv s"
  shows "server_inv (serveClient_defer i p s)"
proof -
  obtain m where m: "sv_metrics s = Some m"
    using assms(4) by (auto simp: server_inv_def)
  note u = many_update [OF assms(1,2)]
  show ?thesis
  proof (cases p)
    case (ReleaseToken c)
    then show ?thesis
      using assms(4) u [of holds_token "DecGauge c"] u [of in_gauge "DecGauge c"] u [of in_group "DecGauge c"] m
      by (auto simp: server_inv_def limit_ok_def gauge_def split: option.splits)
  next
    case (DecGauge c)
    have "(of_nat (many in_gauge (sv_sessions s)) :: 64 word) = of_nat (many in_gauge ((sv_sessions s)[i := CloseConn c])) + 1"
      using arg_cong [OF u [of in_gauge "CloseConn c"], of "of_nat :: nat \<Rightarrow> 64 word"] DecGauge by (simp add: add.commute)
    then show ?thesis
      using DecGauge assms(4) u [of holds_token "CloseConn c"] u [of in_group "CloseConn c"] m
      by (auto simp: server_inv_def limit_ok_def gauge_def DecConnectionActive_def split: option.splits)
  next
    case (CloseConn c)
    let ?q = "CallDone (c\<lparr>closed := True\<rparr>)"
    show ?thesis
      using CloseConn assms(4) u [of holds_token ?q] u [of in_gauge ?q] u [of in_group ?q] m
      by (auto simp: server_inv_def limit_ok_def gauge_def split: option.splits)
  next
    case (CallDone c)
    then show ?thesis
      using assms(4) u [of holds_token "Gone c"] u [of in_gauge "Gone c"] u [of in_group "Gone c"] m
      by (auto simp: server_inv_def limit_ok_def gauge_def split: option.splits)
  qed (use assms(3) in simp_all)
qed

lemma server_step_inv: "step s s' \<Longrightarrow> server_inv s \<Longrightarrow> server_inv s'"
  by (erule stepE)
    (auto intro: inv_listen inv_accept inv_count inv_add inv_go inv_open inv_next inv_defer inv_shutdown inv_update)

lemma reachable_inv: "reachable s0 s \<Longrightarrow> server_inv s0 \<Longrightarrow> server_inv s"
  by (induction rule: reachable.induct) (auto intro: server_step_inv)

definition fresh :: "'x server \<Rightarrow> bool" where
  "fresh s \<longleftrightarrow> (\<exists>addr r dt ka mc md rt wt it disc x. s = server_New addr r dt ka mc md rt wt it NewCollector disc x)"

lemma fresh_inv: "fresh s \<Longrightarrow> server_inv s"
  by (auto simp: fresh_def server_New_def server_inv_def limit_ok_def gauge_def many_def NewCollector_def sem_make_def)

lemma step_capacity: "step s s' \<Longrightarrow> map_option fst (sv_connLimitSem s') = map_option fst (sv_connLimitSem s)"
proof (erule stepE)
  fix i p assume "s' = serveClient_defer i p s" "is_deferred p"
  then show ?thesis
    by (cases p; cases "sv_connLimitSem s") auto
qed (auto simp: Serve_listen_def Serve_accept_def Serve_count_def Serve_add_def Serve_go_def Shutdown_def
    server_UpdateRouter_def serveClient_open_def serveClient_next_def session_put_def split: sum.split option.splits accepted.split prod.split
    if_splits elim!: sem_try.elims)

lemma reachable_capacity: "reachable s0 s \<Longrightarrow> map_option fst (sv_connLimitSem s) = map_option fst (sv_connLimitSem s0)"
  by (induction rule: reachable.induct) (auto dest: step_capacity)

text \<open>A goroutine that is past the deferred \<open>Close\<close> has closed its connection, and so has the accept loop for
  those it turned away.\<close>

fun closed_if_past :: "phase \<Rightarrow> bool" where
  "closed_if_past (CallDone c) = closed c" | "closed_if_past (Gone c) = closed c" | "closed_if_past _ = True"

definition all_closed :: "'x server \<Rightarrow> bool" where
  "all_closed s \<longleftrightarrow> list_all closed_if_past (sv_sessions s) \<and> list_all closed (sv_rejected s)"

lemma list_all_update: "list_all P xs \<Longrightarrow> P y \<Longrightarrow> list_all P (xs[i := y])"
  by (auto simp: list_all_iff dest: set_update_subset_insert [THEN subsetD])

lemma closed_if_past_after [simp]: "closed_if_past (phase_after E st c)"
  by (cases st) (simp_all add: phase_after_def)

lemma step_closed:
  assumes "step s s'" and "all_closed s"
  shows "all_closed s'"
  using assms(1)
proof cases
  case (deferred i p)
  have "closed_if_past p"
    using deferred assms(2) by (auto simp: all_closed_def list_all_length)
  then show ?thesis
    using deferred(1,4) assms(2) by (cases p) (auto simp: all_closed_def intro!: list_all_update)
qed (use assms(2) in \<open>auto simp: all_closed_def Serve_listen_def Serve_accept_def Serve_count_def Serve_add_def
    Serve_go_def Shutdown_def server_UpdateRouter_def serveClient_open_def serveClient_next_def session_put_def intro!: list_all_update
    split: sum.split option.splits accepted.split prod.split\<close>)

lemma fresh_closed: "fresh s \<Longrightarrow> all_closed s"
  by (auto simp: fresh_def server_New_def all_closed_def)

lemma reachable_closed: "reachable s0 s \<Longrightarrow> all_closed s0 \<Longrightarrow> all_closed s"
  by (induction rule: reachable.induct) (auto intro: step_closed)

section \<open>Properties\<close>

text \<open>C5: in every reachable state the books of the server balance: the tokens of the connection limit are
  held by exactly the clients being served or being registered, and are never more than the limit;
  the gauge of active connections is the number of clients counted and not yet discounted; the wait group
  is the number of goroutines that have not called \<open>Done\<close>.\<close>

theorem server_books_balance:
  assumes "fresh s0" and "reachable s0 s"
  shows "server_inv s"
  using reachable_inv [OF assms(2) fresh_inv [OF assms(1)]] .

definition demo_server :: "unit server" where
  "demo_server = server_New ''0.0.0.0:1080'' demo_router 0 0 1 0 0 0 0 NewCollector None ()"

lemma demo_server_fresh: "fresh demo_server"
  unfolding fresh_def demo_server_def by blast

definition demo_listening :: "unit server" where
  "demo_listening = Serve_listen (Inr ()) demo_server"

definition demo_token :: "unit server" where
  "demo_token = Serve_accept (Inr (TcpClient (demo_conn []))) demo_listening"

lemma demo_token_reachable: "reachable demo_server demo_token"
proof -
  have "step demo_server demo_listening"
    unfolding demo_listening_def by (rule step.listen) (simp add: demo_server_def server_New_def)
  moreover have "step demo_listening demo_token"
    unfolding demo_token_def
    by (rule step.accept) (simp_all add: demo_listening_def demo_server_def server_New_def Serve_listen_def)
  ultimately show ?thesis
    by (meson reachable.init reachable.more)
qed

lemma demo_token_state:
  "sv_pc demo_token = HasToken (demo_conn [])" "sv_wg demo_token = 0" "sv_listener demo_token = Some True"
  "sv_sessions demo_token = []" "sv_connLimitSem demo_token = Some (1, 1)"
  by (simp_all add: demo_token_def demo_listening_def demo_server_def server_New_def Serve_listen_def Serve_accept_def sem_make_def)

theorem server_books_balance_witness:
  "server_inv demo_token \<and> sv_connLimitSem demo_token = Some (1, 1)"
  using server_books_balance [OF demo_server_fresh demo_token_reachable] demo_token_state(5) by simp

text \<open>The goroutines that are in \<open>handleConnection\<close>.\<close>

fun in_handler :: "phase \<Rightarrow> bool" where
  "in_handler (Running c) = True" | "in_handler (InSession E st c) = True" | "in_handler _ = False"

lemma running_holds: "many in_handler ps \<le> many holds_token ps"
proof -
  have "in_handler p \<Longrightarrow> holds_token p" for p
    by (cases p) simp_all
  then show ?thesis
    unfolding many_def by (induction ps) auto
qed

text \<open>The connection limit holds: with a positive \<open>max_connections\<close>, never more sessions than that are
  in \<open>handleConnection\<close> at the same time, under every interleaving.\<close>

theorem connection_limit_respected:
  assumes "s0 = server_New addr r dt ka mc md rt wt it NewCollector disc x" and "0 < mc" and "reachable s0 s"
  shows "int (many in_handler (sv_sessions s)) \<le> mc"
proof -
  have "fresh s0"
    unfolding fresh_def assms(1) by (intro exI, rule refl)
  then have "server_inv s"
    by (rule reachable_inv [OF assms(3) fresh_inv])
  moreover obtain n where "sv_connLimitSem s = Some (nat mc, n)"
    using reachable_capacity [OF assms(3)] assms(1,2) by (auto simp: server_New_def sem_make_def)
  ultimately have "many holds_token (sv_sessions s) \<le> nat mc"
    by (auto simp: server_inv_def limit_ok_def)
  then show ?thesis
    using running_holds [of "sv_sessions s"] assms(2) by linarith
qed

theorem connection_limit_respected_witness:
  "int (many in_handler (sv_sessions demo_token)) \<le> 1"
  by (rule connection_limit_respected [OF demo_server_def _ demo_token_reachable]) simp

text \<open>When the wait group is empty and no client is being registered, everything is settled.\<close>

lemma finished_books:
  assumes "fresh s0" and "reachable s0 s" and pc: "\<exists>e. sv_pc s = Waiting \<or> sv_pc s = Returned e"
    and z: "many in_group (sv_sessions s) = 0"
  shows "(\<forall>p \<in> set (sv_sessions s). \<exists>c. p = Gone c \<and> closed c) \<and> gauge s = 0
    \<and> (case sv_connLimitSem s of None \<Rightarrow> True | Some (cap, n) \<Rightarrow> n = 0) \<and> Wait s True"
proof -
  have i: "server_inv s"
    using reachable_inv [OF assms(2) fresh_inv [OF assms(1)]] .
  have n: "\<not> in_group p" if "p \<in> set (sv_sessions s)" for p
    using that z by (auto simp: many_def filter_empty_conv)
  have g: "\<exists>c. p = Gone c" if "p \<in> set (sv_sessions s)" for p
    using n [OF that] by (cases p) auto
  then have "many in_gauge (sv_sessions s) = 0" and "many holds_token (sv_sessions s) = 0"
    by (fastforce simp: many_def filter_empty_conv)+
  moreover have "\<exists>c. p = Gone c \<and> closed c" if "p \<in> set (sv_sessions s)" for p
    using g [OF that] reachable_closed [OF assms(2) fresh_closed [OF assms(1)]] that
    by (auto simp: all_closed_def list_all_iff)
  moreover have "Wait s True"
    using i pc z by (intro Wait.finished) (auto simp: server_inv_def)
  ultimately show ?thesis
    using i pc by (auto simp: server_inv_def limit_ok_def split: option.splits)
qed

text \<open>What \<open>Wait\<close> tells. If it returns true while the accept loop has returned or waits in
  \<open>Accept\<close>, then every accepted client has been served to the end: its goroutine is gone and has closed
  the connection, its token is back and the gauge is zero.\<close>

theorem wait_means_finished:
  assumes "fresh s0" and "reachable s0 s" and "Wait s True" and "sv_pc s = Waiting \<or> (\<exists>e. sv_pc s = Returned e)"
  shows "(\<forall>p \<in> set (sv_sessions s). \<exists>c. p = Gone c \<and> closed c) \<and> gauge s = 0
    \<and> (case sv_connLimitSem s of None \<Rightarrow> True | Some (cap, n) \<Rightarrow> n = 0)"
proof -
  have "sv_wg s = 0"
    using assms(3) by (auto elim: Wait.cases)
  then have "many in_group (sv_sessions s) = 0"
    using reachable_inv [OF assms(2) fresh_inv [OF assms(1)]] by (simp add: server_inv_def)
  then show ?thesis
    using finished_books [OF assms(1,2)] assms(4) by blast
qed

theorem wait_means_finished_witness: "gauge demo_listening = 0"
proof -
  have r: "reachable demo_server demo_listening"
    unfolding demo_listening_def
    by (rule reachable.more [OF reachable.init], rule step.listen) (simp add: demo_server_def server_New_def)
  have "Wait demo_listening True"
    by (rule Wait.finished) (simp add: demo_listening_def demo_server_def server_New_def Serve_listen_def)
  moreover have "sv_pc demo_listening = Waiting"
    by (simp add: demo_listening_def Serve_listen_def)
  ultimately show ?thesis
    using wait_means_finished [OF demo_server_fresh r] by blast
qed

text \<open>C39: between \<open>Accept\<close> and \<open>wg.Add\<close> a client is invisible to \<open>Wait\<close>. A shutdown at that moment can
  report all tunnels finished although the session of a client that was already accepted is
  still to start.\<close>

theorem wait_misses_accepted_client:
  "\<exists>s s'. reachable demo_server s \<and> sv_listener s = Some False \<and> Wait s True
     \<and> reachable s s' \<and> (\<exists>c. Running c \<in> set (sv_sessions s'))"
proof (intro exI conjI)
  let ?c = "demo_conn []"
  let ?s = "snd (Shutdown None demo_token)"
  let ?s1 = "Serve_count ?c ?s"
  let ?s2 = "Serve_add ?c ?s1"
  let ?s3 = "Serve_go ?c ?s2"
  show "reachable demo_server ?s"
    using reachable.more [OF demo_token_reachable step.shutdown] .
  show "sv_listener ?s = Some False"
    by (simp add: Shutdown_def demo_token_state)
  show "Wait ?s True"
    by (rule Wait.finished) (simp add: Shutdown_def demo_token_state)
  have "step ?s ?s1"
    by (rule step.count) (simp add: Shutdown_def demo_token_state)
  moreover have "step ?s1 ?s2"
    by (rule step.add) (simp add: Serve_count_def)
  moreover have "step ?s2 ?s3"
    by (rule step.go) (simp add: Serve_add_def)
  ultimately show "reachable ?s ?s3"
    by (meson reachable.init reachable.more)
  show "Running ?c \<in> set (sv_sessions ?s3)"
    by (simp add: Serve_go_def)
qed

text \<open>At the limit a new client is turned away: its connection is closed, the collector counts one
  \<open>conn_limit\<close> error, nothing else in the server changes, and the loop goes on accepting.\<close>

theorem client_over_limit_rejected:
  assumes "sv_connLimitSem s = Some (cap, cap)"
  shows "Serve_accept (Inr (TcpClient c)) s =
    s\<lparr>sv_metrics := observe [ConnectionError ''conn_limit''] (sv_metrics s), sv_rejected := sv_rejected s @ [c\<lparr>closed := True\<rparr>]\<rparr>"
  using assms by (simp add: Serve_accept_def)

theorem client_over_limit_rejected_witness:
  "sv_sessions (Serve_accept (Inr (TcpClient (demo_conn [1]))) demo_token) = []"
  using client_over_limit_rejected [OF demo_token_state(5)] by (simp add: demo_token_state)

end
