(* ===== verification/Config.thy ===== *)
theory Config
  imports Go_Net
begin

text \<open>
  Configuration, \<open>internal/config/config.go\<close>: the YAML structure, its validation into the runtime
  configuration, and the edit that auto-discovery makes. Go's \<open>int\<close> and \<open>time.Duration\<close> are 64-bit
  signed integers: an \<open>int\<close> with the wrap-around of the one multiplication written out.

  Arguments that stand for code and data outside the program: the YAML package (\<open>yaml\<close>), the file
  system (\<open>disk\<close>), the resolver behind \<open>net.ResolveTCPAddr\<close>, whose answer may differ from call to
  call and is therefore indexed by the call (\<open>call_site\<close>), and the order of each \<open>range\<close> over a map.
\<close>

section \<open>Data\<close>

record cfg_server =
  srv_ListenAddr :: string
  srv_MaxConnections :: int
  srv_MaxInflightDials :: int

record cfg_metrics =
  met_Enabled :: "bool option"
  met_ListenAddr :: string

record cfg_health =
  hc_IntervalMS :: int
  hc_TimeoutMS :: int
  hc_Path :: string

record cfg_timeouts =
  tmo_DialMS :: int
  tmo_ShutdownGracePeriod :: int
  tmo_ReadMS :: int
  tmo_WriteMS :: int
  tmo_IdleMS :: int

record BackendGroup =
  bg_Addresses :: "string list"
  bg_Healthcheck :: cfg_health

text \<open>A \<open>nil\<close> map is \<open>None\<close>.\<close>

record Config =
  cf_Server :: cfg_server
  cf_Metrics :: cfg_metrics
  cf_Healthcheck :: cfg_health
  cf_KeepAliveMS :: int
  cf_Timeouts :: cfg_timeouts
  cf_AutoDiscovery :: "bool option"
  cf_Backends :: "(string, BackendGroup) gomap option"
  cf_Routes :: "(string, string) gomap option"

record BackendGroupConfig =
  gc_Name :: string
  gc_Addresses :: "string list"
  gc_Interval :: int
  gc_Timeout :: int
  gc_Path :: string

record RuntimeConfig =
  rc_ListenAddr :: string
  rc_MetricsEnabled :: bool
  rc_MetricsListenAddr :: string
  rc_AutoDiscoveryEnabled :: bool
  rc_MaxConnections :: int
  rc_MaxInflightDials :: int
  rc_DialTimeout :: int
  rc_ReadTimeout :: int
  rc_WriteTimeout :: int
  rc_IdleTimeout :: int
  rc_TCPKeepAlive :: int
  rc_ShutdownGrace :: int
  rc_Routes :: "(string, string list) gomap"
  rc_BackendGroups :: "BackendGroupConfig list"
  rc_HostToGroup :: "(string, string) gomap"

text \<open>A call returns a value, returns an error, or panics (a nil pointer is dereferenced).\<close>

datatype 'a outcome = Ok 'a | Err go_error | Panic

datatype call_site = AtListen | AtMetrics | AtBackend string nat | AtRoute string nat

type_synonym resolver = "call_site \<Rightarrow> string \<Rightarrow> TCPAddr result"

record yaml =
  yaml_Unmarshal :: "string \<Rightarrow> Config result"
  yaml_Marshal :: "Config \<Rightarrow> string result"

text \<open>Files by path: what a read gives, and whether a write fails after some bytes.\<close>

record disk =
  files :: "string \<Rightarrow> string result"
  write_fails :: "string \<Rightarrow> (nat \<times> go_error) option"

section \<open>Durations\<close>

abbreviation "Second \<equiv> (1000000000 :: int)"
abbreviation "Millisecond \<equiv> (1000000 :: int)"

definition wrap64 :: "int \<Rightarrow> int" where
  "wrap64 x = (x + 2 ^ 63) mod 2 ^ 64 - 2 ^ 63"

definition durationFromMS :: "int \<Rightarrow> int \<Rightarrow> int" where
  "durationFromMS ms fallback = (if ms \<le> 0 then fallback else wrap64 (ms * Millisecond))"

definition defaultHealthInterval :: int where "defaultHealthInterval = 5 * Second"
definition defaultHealthTimeout :: int where "defaultHealthTimeout = 2 * Second"
definition defaultDialTimeout :: int where "defaultDialTimeout = 4 * Second"
definition defaultTCPKeepAlive :: int where "defaultTCPKeepAlive = 30 * Second"
definition defaultShutdownGrace :: int where "defaultShutdownGrace = 10 * Second"
definition defaultReadTimeout :: int where "defaultReadTimeout = 10 * Second"
definition defaultWriteTimeout :: int where "defaultWriteTimeout = 10 * Second"
definition defaultIdleTimeout :: int where "defaultIdleTimeout = 5 * 60 * Second"

lemmas default_durations = defaultHealthInterval_def defaultHealthTimeout_def defaultDialTimeout_def
  defaultTCPKeepAlive_def defaultShutdownGrace_def defaultReadTimeout_def defaultWriteTimeout_def
  defaultIdleTimeout_def

section \<open>Validation\<close>

definition config_normalizeHost :: "unicode \<Rightarrow> string \<Rightarrow> string" where
  "config_normalizeHost u h = TrimSuffix (TrimSpace (ToLower (uc_lower u) h)) ''.''"

text \<open>A health check path: trimmed, and with a leading slash if it is not empty.\<close>

definition slash_path :: "string \<Rightarrow> string" where
  "slash_path p0 =
     (let p = TrimSpace p0 in if p \<noteq> [] \<and> \<not> HasPrefix p ''/'' then ''/'' @ p else p)"

definition addr_string :: "TCPAddr \<Rightarrow> string" where
  "addr_string t = JoinHostPort (IP_String (tcp_IP t)) (fmt_d (tcp_Port t))"

text \<open>The address loop of one backend group; \<open>key\<close> is the map key, \<open>groupName\<close> its trimmed form.\<close>

fun group_addrs ::
  "unicode \<Rightarrow> resolver \<Rightarrow> string \<Rightarrow> string \<Rightarrow> nat \<Rightarrow> string list \<Rightarrow> string list \<Rightarrow> string list outcome" where
  "group_addrs u rs key groupName i [] acc = Ok acc"
| "group_addrs u rs key groupName i (a # as) acc =
     (let addr = TrimSpace a; q = Quote (uc_print u)
      in if addr = [] then Err (errors_New (''backends['' @ q groupName @ ''] contains empty address''))
         else case rs (AtBackend key i) addr of
                Inl e \<Rightarrow> Err (errorf_w (''invalid backend '' @ q addr @ '' in group '' @ q groupName) e)
              | Inr t \<Rightarrow>
                  if tcp_IP t = [] \<or> IsUnspecified (tcp_IP t) then
                    Err (errors_New (''backend '' @ q addr @ '' in group '' @ q groupName
                      @ '' must use a concrete IP''))
                  else group_addrs u rs key groupName (Suc i) as (acc @ [addr_string t]))"

fun load_groups ::
  "unicode \<Rightarrow> resolver \<Rightarrow> int \<Rightarrow> int \<Rightarrow> string \<Rightarrow> (string \<times> BackendGroup) list \<Rightarrow> BackendGroupConfig list
     \<Rightarrow> BackendGroupConfig list outcome" where
  "load_groups u rs dInterval dTimeout dPath [] acc = Ok acc"
| "load_groups u rs dInterval dTimeout dPath ((key, grp) # gs) acc =
     (let groupName = TrimSpace key
      in if groupName = [] then Err (errors_New ''backends contains empty group name'')
         else if bg_Addresses grp = [] then
           Err (errors_New (''backends['' @ Quote (uc_print u) groupName @ ''] must contain at least one address''))
         else case group_addrs u rs key groupName 0 (bg_Addresses grp) [] of
                Err e \<Rightarrow> Err e
              | Panic \<Rightarrow> Panic
              | Ok addrs \<Rightarrow>
                  let interval = durationFromMS (hc_IntervalMS (bg_Healthcheck grp)) dInterval;
                      timeout = durationFromMS (hc_TimeoutMS (bg_Healthcheck grp)) dTimeout
                  in if timeout > interval then
                       Err (errors_New (''backends['' @ Quote (uc_print u) groupName
                         @ ''].healthcheck.timeout_ms must be <= interval_ms''))
                     else let path0 = slash_path (hc_Path (bg_Healthcheck grp));
                              path = (if path0 = [] then dPath else path0)
                          in load_groups u rs dInterval dTimeout dPath gs
                               (acc @ [\<lparr>gc_Name = groupName, gc_Addresses = addrs, gc_Interval = interval,
                                  gc_Timeout = timeout, gc_Path = path\<rparr>]))"

text \<open>The address loop of one route: the resolver's error is dropped, so a failure leaves a nil
  address, and reading its field panics (\<open>None\<close>).\<close>

fun route_addrs :: "resolver \<Rightarrow> string \<Rightarrow> nat \<Rightarrow> string list \<Rightarrow> string list option" where
  "route_addrs rs key i [] = Some []"
| "route_addrs rs key i (a # as) =
     (case rs (AtRoute key i) (TrimSpace a) of
        Inl e \<Rightarrow> None
      | Inr t \<Rightarrow> map_option (\<lambda>xs. addr_string t # xs) (route_addrs rs key (Suc i) as))"

fun load_routes ::
  "unicode \<Rightarrow> resolver \<Rightarrow> (string, BackendGroup) gomap \<Rightarrow> (string \<times> string) list
     \<Rightarrow> (string, string list) gomap \<Rightarrow> (string, string) gomap
     \<Rightarrow> ((string, string list) gomap \<times> (string, string) gomap) outcome" where
  "load_routes u rs bks [] routes h2g = Ok (routes, h2g)"
| "load_routes u rs bks ((host, groupName0) # es) routes h2g =
     (let normalizedHost = config_normalizeHost u host; groupName = TrimSpace groupName0
      in if normalizedHost = [] then Err (errors_New ''routes contains empty host key'')
         else if groupName = [] then
           Err (errors_New (''routes['' @ Quote (uc_print u) host @ ''] has empty group name''))
         else case gm_get bks groupName of
                None \<Rightarrow> Err (errors_New (''routes['' @ Quote (uc_print u) host @ ''] references unknown group ''
                          @ Quote (uc_print u) groupName))
              | Some grp \<Rightarrow>
                  (case route_addrs rs host 0 (bg_Addresses grp) of
                     None \<Rightarrow> Panic
                   | Some addrs \<Rightarrow>
                       load_routes u rs bks es (gm_put normalizedHost addrs routes)
                         (gm_put normalizedHost groupName h2g)))"

definition the_map :: "('k, 'v) gomap option \<Rightarrow> ('k, 'v) gomap" where
  "the_map m = (case m of None \<Rightarrow> gm_empty | Some x \<Rightarrow> x)"

definition normalizeAndValidate ::
  "unicode \<Rightarrow> resolver \<Rightarrow> key_order \<Rightarrow> key_order \<Rightarrow> Config \<Rightarrow> RuntimeConfig outcome" where
  "normalizeAndValidate u rs ordB ordR cfg =
     (if TrimSpace (srv_ListenAddr (cf_Server cfg)) = [] then Err (errors_New ''server.listen_addr is required'')
      else case rs AtListen (srv_ListenAddr (cf_Server cfg)) of
        Inl e \<Rightarrow> Err (errorf_w ''invalid server.listen_addr'' e)
      | Inr _ \<Rightarrow>
        let metricsEnabled = (case met_Enabled (cf_Metrics cfg) of None \<Rightarrow> True | Some b \<Rightarrow> b);
            mla0 = TrimSpace (met_ListenAddr (cf_Metrics cfg));
            metricsListenAddr = (if metricsEnabled \<and> mla0 = [] then ''127.0.0.1:9090'' else mla0)
        in case (if metricsEnabled then rs AtMetrics metricsListenAddr else Inr \<lparr>tcp_IP = [], tcp_Port = 0\<rparr>) of
        Inl e \<Rightarrow> Err (errorf_w ''invalid metrics.listen_addr'' e)
      | Inr _ \<Rightarrow>
        let dInterval = durationFromMS (hc_IntervalMS (cf_Healthcheck cfg)) defaultHealthInterval;
            dTimeout = durationFromMS (hc_TimeoutMS (cf_Healthcheck cfg)) defaultHealthTimeout
        in if dTimeout > dInterval then
             Err (errors_New ''healthcheck.timeout_ms must be <= healthcheck.interval_ms'')
        else let dPath = slash_path (hc_Path (cf_Healthcheck cfg));
                 bks = the_map (cf_Backends cfg); rts = the_map (cf_Routes cfg)
        in if bks = [] then Err (errors_New ''backends must contain at least one group'')
        else if rts = [] then Err (errors_New ''routes must contain at least one host'')
        else case load_groups u rs dInterval dTimeout dPath (range_map ordB bks) [] of
          Err e \<Rightarrow> Err e | Panic \<Rightarrow> Panic
        | Ok groups \<Rightarrow>
        (case load_routes u rs bks (range_map ordR rts) gm_empty gm_empty of
          Err e \<Rightarrow> Err e | Panic \<Rightarrow> Panic
        | Ok (routes, hostToGroup) \<Rightarrow>
            let t = cf_Timeouts cfg in
            Ok \<lparr>rc_ListenAddr = srv_ListenAddr (cf_Server cfg),
                rc_MetricsEnabled = metricsEnabled,
                rc_MetricsListenAddr = metricsListenAddr,
                rc_AutoDiscoveryEnabled = (cf_AutoDiscovery cfg = Some True),
                rc_MaxConnections = srv_MaxConnections (cf_Server cfg),
                rc_MaxInflightDials = srv_MaxInflightDials (cf_Server cfg),
                rc_DialTimeout = durationFromMS (tmo_DialMS t) defaultDialTimeout,
                rc_ReadTimeout = durationFromMS (tmo_ReadMS t) defaultReadTimeout,
                rc_WriteTimeout = durationFromMS (tmo_WriteMS t) defaultWriteTimeout,
                rc_IdleTimeout = durationFromMS (tmo_IdleMS t) defaultIdleTimeout,
                rc_TCPKeepAlive = durationFromMS (cf_KeepAliveMS cfg) defaultTCPKeepAlive,
                rc_ShutdownGrace = durationFromMS (tmo_ShutdownGracePeriod t) defaultShutdownGrace,
                rc_Routes = routes,
                rc_BackendGroups = groups,
                rc_HostToGroup = hostToGroup\<rparr>))"

section \<open>Files\<close>

definition LoadRaw :: "yaml \<Rightarrow> disk \<Rightarrow> string \<Rightarrow> Config result" where
  "LoadRaw y d path =
     (case files d path of
        Inl e \<Rightarrow> Inl (errorf_w ''read config'' e)
      | Inr raw \<Rightarrow>
          (case yaml_Unmarshal y raw of
             Inl e \<Rightarrow> Inl (errorf_w ''parse yaml'' e)
           | Inr cfg \<Rightarrow> Inr cfg))"

definition Load ::
  "unicode \<Rightarrow> resolver \<Rightarrow> key_order \<Rightarrow> key_order \<Rightarrow> yaml \<Rightarrow> disk \<Rightarrow> string \<Rightarrow> RuntimeConfig outcome" where
  "Load u rs ordB ordR y d path =
     (case files d path of
        Inl e \<Rightarrow> Err (errorf_w ''read config'' e)
      | Inr raw \<Rightarrow>
          (case yaml_Unmarshal y raw of
             Inl e \<Rightarrow> Err (errorf_w ''parse yaml'' e)
           | Inr cfg \<Rightarrow> normalizeAndValidate u rs ordB ordR cfg))"

text \<open>\<open>os.WriteFile\<close> truncates first: a failed write leaves the bytes written so far.\<close>

definition Save :: "yaml \<Rightarrow> disk \<Rightarrow> string \<Rightarrow> Config \<Rightarrow> unit result \<times> disk" where
  "Save y d path cfg =
     (case yaml_Marshal y cfg of
        Inl e \<Rightarrow> (Inl (errorf_w ''marshal config'' e), d)
      | Inr data \<Rightarrow>
          (case write_fails d path of
             None \<Rightarrow> (Inr (), d\<lparr>files := (files d)(path := Inr data)\<rparr>)
           | Some (k, e) \<Rightarrow>
               (Inl (errorf_w ''write config'' e), d\<lparr>files := (files d)(path := Inr (take k data))\<rparr>)))"

section \<open>The edit of auto-discovery\<close>

definition AddAutoDiscoveredRoute ::
  "unicode \<Rightarrow> Config \<Rightarrow> string \<Rightarrow> string list \<Rightarrow> bool result \<times> Config" where
  "AddAutoDiscoveredRoute u cfg0 host addresses =
     (let bks = the_map (cf_Backends cfg0); rts = the_map (cf_Routes cfg0);
          cfg = cfg0\<lparr>cf_Backends := Some bks, cf_Routes := Some rts\<rparr>;
          hostKey = config_normalizeHost u host
      in if hostKey = [] then (Inl (errors_New ''empty host''), cfg)
         else if addresses = [] then (Inl (errors_New ''no addresses''), cfg)
         else if gm_get rts hostKey \<noteq> None then (Inr False, cfg)
         else let name0 = ''auto-'' @ ReplaceAll1 CHR '':'' CHR ''-'' (ReplaceAll1 CHR ''.'' CHR ''-'' hostKey);
                  groupName = (if gm_get bks name0 \<noteq> None then name0 @ ''-'' @ fmt_d (int (length bks)) else name0);
                  grp = \<lparr>bg_Addresses = addresses,
                           bg_Healthcheck = \<lparr>hc_IntervalMS = 0, hc_TimeoutMS = 0, hc_Path = []\<rparr>\<rparr>
              in (Inr True, cfg\<lparr>cf_Backends := Some (gm_put groupName grp bks),
                               cf_Routes := Some (gm_put hostKey groupName rts)\<rparr>))"

section \<open>What the loops compute\<close>

definition resolved :: "resolver \<Rightarrow> call_site \<Rightarrow> string \<Rightarrow> string" where
  "resolved rs site a = (case rs site (TrimSpace a) of Inr t \<Rightarrow> addr_string t | Inl _ \<Rightarrow> [])"

definition resolves :: "resolver \<Rightarrow> call_site \<Rightarrow> string \<Rightarrow> bool" where
  "resolves rs site a \<longleftrightarrow> is_ok (rs site (TrimSpace a))"

definition addr_ok :: "resolver \<Rightarrow> call_site \<Rightarrow> string \<Rightarrow> bool" where
  "addr_ok rs site a \<longleftrightarrow> TrimSpace a \<noteq> [] \<and>
     (case rs site (TrimSpace a) of Inl _ \<Rightarrow> False | Inr t \<Rightarrow> tcp_IP t \<noteq> [] \<and> \<not> IsUnspecified (tcp_IP t))"

lemma addr_ok_resolves: "addr_ok rs site a \<Longrightarrow> resolves rs site a"
  by (auto simp: addr_ok_def resolves_def split: sum.splits)

lemma group_addrs_Ok:
  "group_addrs u rs key gn i as acc = Ok xs \<longleftrightarrow>
     (\<forall>(j, a) \<in> set (enumerate i as). addr_ok rs (AtBackend key j) a)
     \<and> xs = acc @ map (\<lambda>(j, a). resolved rs (AtBackend key j) a) (enumerate i as)"
proof (induction as arbitrary: i acc)
  case (Cons a as)
  show ?case
    by (cases "rs (AtBackend key i) (TrimSpace a)")
      (auto simp: Let_def Cons.IH addr_ok_def resolved_def)
qed auto

lemma group_addrs_no_panic [simp]: "group_addrs u rs key gn i as acc \<noteq> Panic"
  by (induction as arbitrary: i acc) (auto simp: Let_def split: sum.split)

lemma route_addrs_Some:
  "route_addrs rs key i as = Some xs \<longleftrightarrow>
     (\<forall>(j, a) \<in> set (enumerate i as). resolves rs (AtRoute key j) a)
     \<and> xs = map (\<lambda>(j, a). resolved rs (AtRoute key j) a) (enumerate i as)"
proof (induction as arbitrary: i xs)
  case (Cons a as)
  show ?case
  proof (cases "rs (AtRoute key i) (TrimSpace a)")
    case (Inr t)
    then show ?thesis
      by (auto simp: Cons.IH resolves_def resolved_def)
  qed (auto simp: resolves_def)
qed auto

text \<open>Acceptance of one group and of one route, and what an accepted one becomes.\<close>

definition group_ok :: "resolver \<Rightarrow> int \<Rightarrow> int \<Rightarrow> string \<times> BackendGroup \<Rightarrow> bool" where
  "group_ok rs dI dT e \<longleftrightarrow> TrimSpace (fst e) \<noteq> [] \<and> bg_Addresses (snd e) \<noteq> []
     \<and> (\<forall>(j, a) \<in> set (enumerate 0 (bg_Addresses (snd e))). addr_ok rs (AtBackend (fst e) j) a)
     \<and> durationFromMS (hc_TimeoutMS (bg_Healthcheck (snd e))) dT
         \<le> durationFromMS (hc_IntervalMS (bg_Healthcheck (snd e))) dI"

definition group_config :: "resolver \<Rightarrow> int \<Rightarrow> int \<Rightarrow> string \<Rightarrow> string \<times> BackendGroup \<Rightarrow> BackendGroupConfig" where
  "group_config rs dI dT dP e =
     \<lparr>gc_Name = TrimSpace (fst e),
      gc_Addresses = map (\<lambda>(j, a). resolved rs (AtBackend (fst e) j) a) (enumerate 0 (bg_Addresses (snd e))),
      gc_Interval = durationFromMS (hc_IntervalMS (bg_Healthcheck (snd e))) dI,
      gc_Timeout = durationFromMS (hc_TimeoutMS (bg_Healthcheck (snd e))) dT,
      gc_Path = (if slash_path (hc_Path (bg_Healthcheck (snd e))) = [] then dP
                 else slash_path (hc_Path (bg_Healthcheck (snd e))))\<rparr>"

lemma load_groups_Ok:
  "load_groups u rs dI dT dP gs acc = Ok groups \<longleftrightarrow>
     (\<forall>e \<in> set gs. group_ok rs dI dT e) \<and> groups = acc @ map (group_config rs dI dT dP) gs"
proof (induction gs arbitrary: acc)
  case (Cons e gs)
  obtain key grp where e: "e = (key, grp)" by fastforce
  show ?case
  proof (cases "group_addrs u rs key (TrimSpace key) 0 (bg_Addresses grp) []")
    case (Ok xs)
    then show ?thesis
      using group_addrs_Ok [of u rs key "TrimSpace key" 0 "bg_Addresses grp" "[]" xs]
      by (auto simp: e Let_def Cons.IH group_ok_def group_config_def not_less)
  next
    case (Err er)
    then have "\<not> (\<forall>(j, a) \<in> set (enumerate 0 (bg_Addresses grp)). addr_ok rs (AtBackend key j) a)"
      using group_addrs_Ok [of u rs key "TrimSpace key" 0 "bg_Addresses grp" "[]"]
      by (metis outcome.distinct(1))
    then show ?thesis
      using Err by (auto simp: e Let_def group_ok_def)
  qed simp
qed auto

lemma load_groups_no_panic [simp]: "load_groups u rs dI dT dP gs acc \<noteq> Panic"
  by (induction gs arbitrary: acc) (auto simp: Let_def split: outcome.splits if_splits)

definition route_valid :: "unicode \<Rightarrow> (string, BackendGroup) gomap \<Rightarrow> string \<times> string \<Rightarrow> bool" where
  "route_valid u bks e \<longleftrightarrow> config_normalizeHost u (fst e) \<noteq> [] \<and> TrimSpace (snd e) \<noteq> []
     \<and> gm_get bks (TrimSpace (snd e)) \<noteq> None"

definition route_resolves :: "resolver \<Rightarrow> (string, BackendGroup) gomap \<Rightarrow> string \<times> string \<Rightarrow> bool" where
  "route_resolves rs bks e \<longleftrightarrow>
     (\<forall>(j, a) \<in> set (enumerate 0 (bg_Addresses (the (gm_get bks (TrimSpace (snd e)))))).
        resolves rs (AtRoute (fst e) j) a)"

definition route_targets :: "resolver \<Rightarrow> (string, BackendGroup) gomap \<Rightarrow> string \<times> string \<Rightarrow> string list" where
  "route_targets rs bks e =
     map (\<lambda>(j, a). resolved rs (AtRoute (fst e) j) a)
       (enumerate 0 (bg_Addresses (the (gm_get bks (TrimSpace (snd e))))))"

definition put_routes ::
  "unicode \<Rightarrow> resolver \<Rightarrow> (string, BackendGroup) gomap \<Rightarrow> (string \<times> string) list
     \<Rightarrow> (string, string list) gomap \<times> (string, string) gomap
     \<Rightarrow> (string, string list) gomap \<times> (string, string) gomap" where
  "put_routes u rs bks es s = foldl (\<lambda>(r, h) e.
     (gm_put (config_normalizeHost u (fst e)) (route_targets rs bks e) r,
      gm_put (config_normalizeHost u (fst e)) (TrimSpace (snd e)) h)) s es"

lemma load_routes_Ok:
  "load_routes u rs bks es routes h2g = Ok p \<longleftrightarrow>
     (\<forall>e \<in> set es. route_valid u bks e \<and> route_resolves rs bks e) \<and> p = put_routes u rs bks es (routes, h2g)"
proof (induction es arbitrary: routes h2g)
  case (Cons e es)
  obtain h g where e: "e = (h, g)" by fastforce
  show ?case
  proof (cases "gm_get bks (TrimSpace g)")
    case None
    then show ?thesis
      by (auto simp: e Let_def route_valid_def)
  next
    case (Some grp)
    show ?thesis
    proof (cases "route_addrs rs h 0 (bg_Addresses grp)")
      case None
      then have "\<not> route_resolves rs bks e"
        using Some route_addrs_Some [of rs h 0 "bg_Addresses grp"]
        by (simp add: e route_resolves_def) (metis option.distinct(1))
      then show ?thesis
        using None Some by (auto simp: e Let_def)
    next
      fix xs assume xs: "route_addrs rs h 0 (bg_Addresses grp) = Some xs"
      then have "route_resolves rs bks e" and "xs = route_targets rs bks e"
        using Some route_addrs_Some [of rs h 0 "bg_Addresses grp" xs]
        by (auto simp: e route_resolves_def route_targets_def)
      then show ?thesis
        using Some xs by (auto simp: e Let_def Cons.IH route_valid_def put_routes_def)
    qed
  qed
qed (auto simp: put_routes_def)

lemma load_routes_Panic:
  "load_routes u rs bks es routes h2g = Panic \<Longrightarrow>
     \<exists>e \<in> set es. route_valid u bks e \<and> \<not> route_resolves rs bks e"
proof (induction es arbitrary: routes h2g)
  case (Cons e es)
  obtain h g where e: "e = (h, g)" by fastforce
  have none: "route_addrs rs h 0 (bg_Addresses grp) = None \<Longrightarrow> gm_get bks (TrimSpace g) = Some grp \<Longrightarrow>
      \<not> route_resolves rs bks e" for grp
    using route_addrs_Some [of rs h 0 "bg_Addresses grp"]
    by (simp add: e route_resolves_def) (metis option.distinct(1))
  show ?case
    using Cons none by (auto simp: e Let_def route_valid_def split: if_splits option.splits)
qed simp

section \<open>Acceptance\<close>

definition metrics_enabled :: "Config \<Rightarrow> bool" where
  "metrics_enabled cfg = (case met_Enabled (cf_Metrics cfg) of None \<Rightarrow> True | Some b \<Rightarrow> b)"

definition metrics_addr :: "Config \<Rightarrow> string" where
  "metrics_addr cfg =
     (if metrics_enabled cfg \<and> TrimSpace (met_ListenAddr (cf_Metrics cfg)) = [] then ''127.0.0.1:9090''
      else TrimSpace (met_ListenAddr (cf_Metrics cfg)))"

abbreviation "dInterval cfg \<equiv> durationFromMS (hc_IntervalMS (cf_Healthcheck cfg)) defaultHealthInterval"
abbreviation "dTimeout cfg \<equiv> durationFromMS (hc_TimeoutMS (cf_Healthcheck cfg)) defaultHealthTimeout"
abbreviation "dPath cfg \<equiv> slash_path (hc_Path (cf_Healthcheck cfg))"
abbreviation "bks_of cfg \<equiv> the_map (cf_Backends cfg)"
abbreviation "rts_of cfg \<equiv> the_map (cf_Routes cfg)"

definition head_ok :: "resolver \<Rightarrow> Config \<Rightarrow> bool" where
  "head_ok rs cfg \<longleftrightarrow> TrimSpace (srv_ListenAddr (cf_Server cfg)) \<noteq> []
     \<and> is_ok (rs AtListen (srv_ListenAddr (cf_Server cfg)))
     \<and> (metrics_enabled cfg \<longrightarrow> is_ok (rs AtMetrics (metrics_addr cfg)))
     \<and> dTimeout cfg \<le> dInterval cfg \<and> bks_of cfg \<noteq> [] \<and> rts_of cfg \<noteq> []"

definition runtime :: "unicode \<Rightarrow> resolver \<Rightarrow> key_order \<Rightarrow> key_order \<Rightarrow> Config \<Rightarrow> RuntimeConfig" where
  "runtime u rs ordB ordR cfg =
     (let rh = put_routes u rs (bks_of cfg) (range_map ordR (rts_of cfg)) (gm_empty, gm_empty);
          t = cf_Timeouts cfg in
      \<lparr>rc_ListenAddr = srv_ListenAddr (cf_Server cfg),
       rc_MetricsEnabled = metrics_enabled cfg,
       rc_MetricsListenAddr = metrics_addr cfg,
       rc_AutoDiscoveryEnabled = (cf_AutoDiscovery cfg = Some True),
       rc_MaxConnections = srv_MaxConnections (cf_Server cfg),
       rc_MaxInflightDials = srv_MaxInflightDials (cf_Server cfg),
       rc_DialTimeout = durationFromMS (tmo_DialMS t) defaultDialTimeout,
       rc_ReadTimeout = durationFromMS (tmo_ReadMS t) defaultReadTimeout,
       rc_WriteTimeout = durationFromMS (tmo_WriteMS t) defaultWriteTimeout,
       rc_IdleTimeout = durationFromMS (tmo_IdleMS t) defaultIdleTimeout,
       rc_TCPKeepAlive = durationFromMS (cf_KeepAliveMS cfg) defaultTCPKeepAlive,
       rc_ShutdownGrace = durationFromMS (tmo_ShutdownGracePeriod t) defaultShutdownGrace,
       rc_Routes = fst rh,
       rc_BackendGroups = map (group_config rs (dInterval cfg) (dTimeout cfg) (dPath cfg)) (range_map ordB (bks_of cfg)),
       rc_HostToGroup = snd rh\<rparr>)"

definition nv_loops :: "unicode \<Rightarrow> resolver \<Rightarrow> key_order \<Rightarrow> key_order \<Rightarrow> Config \<Rightarrow> RuntimeConfig outcome" where
  "nv_loops u rs ordB ordR cfg =
     (case load_groups u rs (dInterval cfg) (dTimeout cfg) (dPath cfg) (range_map ordB (bks_of cfg)) [] of
        Err e \<Rightarrow> Err e | Panic \<Rightarrow> Panic
      | Ok groups \<Rightarrow>
          (case load_routes u rs (bks_of cfg) (range_map ordR (rts_of cfg)) gm_empty gm_empty of
             Err e \<Rightarrow> Err e | Panic \<Rightarrow> Panic
           | Ok (routes, hostToGroup) \<Rightarrow>
               Ok ((runtime u rs ordB ordR cfg)\<lparr>rc_Routes := routes, rc_BackendGroups := groups,
                     rc_HostToGroup := hostToGroup\<rparr>)))"

lemma nv_head:
  "head_ok rs cfg \<Longrightarrow> normalizeAndValidate u rs ordB ordR cfg = nv_loops u rs ordB ordR cfg"
  unfolding head_ok_def normalizeAndValidate_def nv_loops_def runtime_def
  by (auto simp: Let_def metrics_enabled_def metrics_addr_def is_ok_iff not_less
      split: outcome.split sum.split prod.split if_splits)

lemma nv_head_fails:
  "\<not> head_ok rs cfg \<Longrightarrow> \<exists>e. normalizeAndValidate u rs ordB ordR cfg = Err e"
  unfolding head_ok_def normalizeAndValidate_def
  by (auto simp: Let_def metrics_enabled_def metrics_addr_def is_ok_iff not_less
      split: sum.split if_splits)

definition cfg_inv :: "Config \<Rightarrow> bool" where
  "cfg_inv cfg \<longleftrightarrow> gm_inv (bks_of cfg) \<and> gm_inv (rts_of cfg)"

text \<open>The configurations that are accepted, with no reference to the order of the maps.\<close>

definition cfg_valid :: "unicode \<Rightarrow> resolver \<Rightarrow> Config \<Rightarrow> bool" where
  "cfg_valid u rs cfg \<longleftrightarrow> head_ok rs cfg
     \<and> (\<forall>e \<in> set (bks_of cfg). group_ok rs (dInterval cfg) (dTimeout cfg) e)
     \<and> (\<forall>e \<in> set (rts_of cfg). route_valid u (bks_of cfg) e \<and> route_resolves rs (bks_of cfg) e)"

lemma nv_loops_Ok:
  assumes "cfg_inv cfg" and "is_order ordB" and "is_order ordR"
  shows "nv_loops u rs ordB ordR cfg = Ok rc \<longleftrightarrow>
    (\<forall>e \<in> set (bks_of cfg). group_ok rs (dInterval cfg) (dTimeout cfg) e)
    \<and> (\<forall>e \<in> set (rts_of cfg). route_valid u (bks_of cfg) e \<and> route_resolves rs (bks_of cfg) e)
    \<and> rc = runtime u rs ordB ordR cfg"
proof -
  have B: "set (range_map ordB (bks_of cfg)) = set (bks_of cfg)"
    and R: "set (range_map ordR (rts_of cfg)) = set (rts_of cfg)"
    using assms by (auto simp: cfg_inv_def set_range_map)
  show ?thesis
    unfolding nv_loops_def
    by (auto simp: load_groups_Ok load_routes_Ok B R runtime_def Let_def split: outcome.splits prod.splits
        dest: sym) (metis B R load_groups_Ok load_routes_Ok outcome.distinct(1,3))+
qed

lemma nv_Ok_iff:
  assumes "cfg_inv cfg" and "is_order ordB" and "is_order ordR"
  shows "normalizeAndValidate u rs ordB ordR cfg = Ok rc \<longleftrightarrow>
    cfg_valid u rs cfg \<and> rc = runtime u rs ordB ordR cfg"
  using nv_head [of rs cfg u ordB ordR] nv_head_fails [of rs cfg u ordB ordR] nv_loops_Ok [OF assms, of u rs rc]
  by (cases "head_ok rs cfg") (auto simp: cfg_valid_def)

section \<open>The result\<close>

lemma put_routes_snoc:
  "put_routes u rs bks (es @ [e]) s =
     (gm_put (config_normalizeHost u (fst e)) (route_targets rs bks e) (fst (put_routes u rs bks es s)),
      gm_put (config_normalizeHost u (fst e)) (TrimSpace (snd e)) (snd (put_routes u rs bks es s)))"
  by (simp add: put_routes_def split_beta)

lemma put_routes_Nil [simp]: "put_routes u rs bks [] s = s"
  by (simp add: put_routes_def)

lemma put_routes_get:
  "gm_get (fst (put_routes u rs bks es (gm_empty, gm_empty))) k =
     map_option (route_targets rs bks) (find (\<lambda>e. config_normalizeHost u (fst e) = k) (rev es))"
  "gm_get (snd (put_routes u rs bks es (gm_empty, gm_empty))) k =
     map_option (\<lambda>e. TrimSpace (snd e)) (find (\<lambda>e. config_normalizeHost u (fst e) = k) (rev es))"
  by (induction es rule: rev_induct) (auto simp: put_routes_snoc gm.get_put gm.get_empty)

lemma put_routes_inv:
  "gm_inv (fst (put_routes u rs bks es (gm_empty, gm_empty)))
   \<and> gm_inv (snd (put_routes u rs bks es (gm_empty, gm_empty)))"
  by (induction es rule: rev_induct) (auto simp: put_routes_snoc gm.inv_put gm.inv_empty)

lemma slash_path_shape: "slash_path p = [] \<or> HasPrefix (slash_path p) ''/''"
  by (auto simp: slash_path_def Let_def HasPrefix_def)

definition group_wf :: "BackendGroupConfig \<Rightarrow> bool" where
  "group_wf g \<longleftrightarrow> gc_Name g \<noteq> [] \<and> TrimSpace (gc_Name g) = gc_Name g \<and> gc_Addresses g \<noteq> []
     \<and> gc_Timeout g \<le> gc_Interval g \<and> (gc_Path g = [] \<or> HasPrefix (gc_Path g) ''/'')"

definition runtime_wf :: "RuntimeConfig \<Rightarrow> bool" where
  "runtime_wf rc \<longleftrightarrow> gm_inv (rc_Routes rc) \<and> gm_inv (rc_HostToGroup rc)
     \<and> rc_Routes rc \<noteq> [] \<and> rc_BackendGroups rc \<noteq> []
     \<and> set (gm_keys (rc_Routes rc)) = set (gm_keys (rc_HostToGroup rc))
     \<and> [] \<notin> set (gm_keys (rc_Routes rc))
     \<and> (\<forall>g \<in> set (rc_BackendGroups rc). group_wf g)"

lemma enumerate_Nil_iff [simp]: "enumerate n xs = [] \<longleftrightarrow> xs = []"
  by (metis length_0_conv length_enumerate)

lemma group_config_wf: "group_ok rs dI dT e \<Longrightarrow> dP = [] \<or> HasPrefix dP ''/'' \<Longrightarrow> group_wf (group_config rs dI dT dP e)"
  using slash_path_shape [of "hc_Path (bg_Healthcheck (snd e))"]
  by (auto simp: group_wf_def group_config_def group_ok_def)

lemma put_routes_nonempty: "es \<noteq> [] \<Longrightarrow> fst (put_routes u rs bks es s) \<noteq> []"
  by (cases es rule: rev_cases) (auto simp: put_routes_snoc)

lemma runtime_wf_valid:
  assumes "cfg_inv cfg" and "is_order ordB" and "is_order ordR" and "cfg_valid u rs cfg"
  shows "runtime_wf (runtime u rs ordB ordR cfg)"
proof -
  have B: "set (range_map ordB (bks_of cfg)) = set (bks_of cfg)"
    and R: "set (range_map ordR (rts_of cfg)) = set (rts_of cfg)"
    using assms by (auto simp: cfg_inv_def set_range_map)
  have ne: "range_map ordB (bks_of cfg) \<noteq> []" "range_map ordR (rts_of cfg) \<noteq> []"
    using assms(4) B R by (auto simp: cfg_valid_def head_ok_def)
  have hosts: "config_normalizeHost u (fst e) \<noteq> []" if "e \<in> set (range_map ordR (rts_of cfg))" for e
    using that assms(4) R by (auto simp: cfg_valid_def route_valid_def)
  have "[] \<notin> set (gm_keys (rc_Routes (runtime u rs ordB ordR cfg)))"
    using hosts by (auto simp: runtime_def Let_def gm_in_keys put_routes_get dest: find_SomeD)
  moreover have "group_wf g" if "g \<in> set (rc_BackendGroups (runtime u rs ordB ordR cfg))" for g
    using that assms(4) slash_path_shape [of "hc_Path (cf_Healthcheck cfg)"]
    by (auto simp: runtime_def Let_def B cfg_valid_def intro!: group_config_wf)
  moreover have "set (gm_keys (rc_Routes (runtime u rs ordB ordR cfg)))
      = set (gm_keys (rc_HostToGroup (runtime u rs ordB ordR cfg)))"
    by (simp add: runtime_def Let_def gm.keys_get put_routes_get)
  ultimately show ?thesis
    using ne put_routes_inv put_routes_nonempty [OF ne(2)]
    by (simp add: runtime_wf_def) (simp add: runtime_def Let_def)
qed

text \<open>A resolver that answers every call for an address in the same way.\<close>

definition stable :: "resolver \<Rightarrow> bool" where
  "stable rs \<longleftrightarrow> (\<forall>s t a. rs s a = rs t a)"

lemma stable_resolved: "stable rs \<Longrightarrow> resolved rs s a = resolved rs t a"
  by (metis (no_types, lifting) resolved_def stable_def)

lemma stable_resolves: "stable rs \<Longrightarrow> resolves rs s a = resolves rs t a"
  by (metis resolves_def stable_def)

lemma stable_route_resolves:
  assumes "stable rs" and "route_valid u (bks_of cfg) e"
    and "\<forall>e \<in> set (bks_of cfg). group_ok rs dI dT e"
  shows "route_resolves rs (bks_of cfg) e"
proof -
  obtain grp where g: "gm_get (bks_of cfg) (TrimSpace (snd e)) = Some grp"
    using assms(2) by (auto simp: route_valid_def)
  from assms(3) gm_get_in_set [OF g] have "group_ok rs dI dT (TrimSpace (snd e), grp)" by blast
  then show ?thesis
    using addr_ok_resolves stable_resolves [OF assms(1)]
    by (fastforce simp: route_resolves_def group_ok_def g)
qed

lemma stable_targets:
  assumes "stable rs" and "gm_get bks (TrimSpace (snd e)) = Some grp"
  shows "route_targets rs bks e = gc_Addresses (group_config rs dI dT dP (TrimSpace (snd e), grp))"
  using stable_resolved [OF assms(1)] assms(2)
  by (auto simp: route_targets_def group_config_def)

section \<open>A concrete configuration\<close>

text \<open>A resolver that knows IPv4 literals with a port, as \<open>net.ResolveTCPAddr\<close> does without
  any lookup.\<close>

definition literal_resolver :: resolver where
  "literal_resolver site s =
     (case split_on CHR '':'' s of
        [h, p] \<Rightarrow>
          (case parseIPv4 h of
             Some q \<Rightarrow> Inr \<lparr>tcp_IP = q, tcp_Port = int (of_dec p)\<rparr>
           | None \<Rightarrow> Inl (errors_New ''no such host''))
      | _ \<Rightarrow> Inl (errors_New ''missing port in address''))"

lemma literal_resolver_stable: "stable literal_resolver"
  by (simp add: stable_def literal_resolver_def)

definition no_health :: cfg_health where
  "no_health = \<lparr>hc_IntervalMS = 0, hc_TimeoutMS = 0, hc_Path = []\<rparr>"

definition demo_cfg :: Config where
  "demo_cfg =
     \<lparr>cf_Server = \<lparr>srv_ListenAddr = ''0.0.0.0:1080'', srv_MaxConnections = 100, srv_MaxInflightDials = 10\<rparr>,
      cf_Metrics = \<lparr>met_Enabled = None, met_ListenAddr = []\<rparr>,
      cf_Healthcheck = no_health\<lparr>hc_IntervalMS := 5000, hc_TimeoutMS := 2000, hc_Path := ''healthz''\<rparr>,
      cf_KeepAliveMS = 0,
      cf_Timeouts = \<lparr>tmo_DialMS = 0, tmo_ShutdownGracePeriod = 0, tmo_ReadMS = 0, tmo_WriteMS = 0, tmo_IdleMS = 0\<rparr>,
      cf_AutoDiscovery = Some True,
      cf_Backends = Some [(''pool'', \<lparr>bg_Addresses = [''10.0.1.10:8080'', '' 10.0.1.11:8080 ''], bg_Healthcheck = no_health\<rparr>)],
      cf_Routes = Some [(''API.internal'', ''pool''), (''api.example.com'', '' pool'')]\<rparr>"

lemma demo_cfg_inv: "cfg_inv demo_cfg"
  by (simp add: cfg_inv_def demo_cfg_def the_map_def gm_inv_def)

lemma demo_cfg_valid: "cfg_valid ascii_tables literal_resolver demo_cfg"
proof -
  have g: "\<forall>e \<in> set (bks_of demo_cfg). group_ok literal_resolver (dInterval demo_cfg) (dTimeout demo_cfg) e"
    by code_simp
  have r: "\<forall>e \<in> set (rts_of demo_cfg). route_valid ascii_tables (bks_of demo_cfg) e"
    by code_simp
  have "head_ok literal_resolver demo_cfg"
    by code_simp
  then show ?thesis
    using g r stable_route_resolves [OF literal_resolver_stable _ g] by (auto simp: cfg_valid_def)
qed

lemma runtime_route_group:
  assumes "cfg_inv cfg" and "is_order ordB" and "is_order ordR" and "stable rs"
    and "normalizeAndValidate u rs ordB ordR cfg = Ok rc"
    and "gm_get (rc_HostToGroup rc) h = Some g"
  shows "\<exists>grp \<in> set (rc_BackendGroups rc). gc_Name grp = g \<and> gm_get (rc_Routes rc) h = Some (gc_Addresses grp)"
proof -
  have v: "cfg_valid u rs cfg" and rc: "rc = runtime u rs ordB ordR cfg"
    using nv_Ok_iff [OF assms(1-3)] assms(5) by auto
  obtain e where f: "find (\<lambda>e. config_normalizeHost u (fst e) = h) (rev (range_map ordR (rts_of cfg))) = Some e"
    and g: "g = TrimSpace (snd e)"
    using assms(6) by (auto simp: rc runtime_def Let_def put_routes_get)
  have "e \<in> set (rts_of cfg)"
    using find_SomeD [OF f] assms(1,3) by (simp add: cfg_inv_def set_range_map)
  then obtain grp where grp: "gm_get (bks_of cfg) g = Some grp"
    using v g by (fastforce simp: cfg_valid_def route_valid_def)
  let ?gc = "group_config rs (dInterval cfg) (dTimeout cfg) (dPath cfg) (g, grp)"
  have "?gc \<in> set (rc_BackendGroups rc)"
    using gm_get_in_set [OF grp] assms(1,2) by (simp add: rc runtime_def Let_def cfg_inv_def set_range_map)
  moreover have "gm_get (rc_Routes rc) h = Some (gc_Addresses ?gc)"
    using f grp stable_targets [OF assms(4), of "bks_of cfg" e] unfolding g
    by (simp add: rc runtime_def Let_def put_routes_get)
  moreover have "gc_Name ?gc = g"
    by (simp add: group_config_def g)
  ultimately show ?thesis by blast
qed

section \<open>Properties\<close>

text \<open>C12: which configurations are accepted: exactly those whose listen addresses resolve, whose
  default health timeout is at most the interval, that have groups and routes, in which every
  group has a name, addresses that resolve to concrete IPs and a timeout at most its interval, and
  every route has a host and an existing group. The order in which Go ranges over the two maps
  does not matter.\<close>

theorem normalizeAndValidate_accepts:
  assumes "cfg_inv cfg" and "is_order ordB" and "is_order ordR"
  shows "(\<exists>rc. normalizeAndValidate u rs ordB ordR cfg = Ok rc) \<longleftrightarrow> cfg_valid u rs cfg"
  using nv_Ok_iff [OF assms, of u rs] by auto

theorem normalizeAndValidate_accepts_witness:
  "\<exists>rc. normalizeAndValidate ascii_tables literal_resolver rev rev demo_cfg = Ok rc"
  using normalizeAndValidate_accepts [OF demo_cfg_inv is_order_rev is_order_rev] demo_cfg_valid by blast

text \<open>C13: an accepted configuration is well-formed at run time: there are routes and groups; the two
  host maps have the same keys, none of them empty; every group has a trimmed non-empty
  name, at least one address, a health timeout not above its interval and a path that is empty
  or starts with a slash.\<close>

theorem normalizeAndValidate_wf:
  assumes "cfg_inv cfg" and "is_order ordB" and "is_order ordR"
    and "normalizeAndValidate u rs ordB ordR cfg = Ok rc"
  shows "runtime_wf rc"
  using nv_Ok_iff [OF assms(1-3), of u rs rc] assms(4) runtime_wf_valid [OF assms(1-3), of u rs] by simp

theorem normalizeAndValidate_wf_witness:
  "runtime_wf (runtime ascii_tables literal_resolver rev rev demo_cfg)"
proof (rule normalizeAndValidate_wf [OF demo_cfg_inv is_order_rev is_order_rev])
  show "normalizeAndValidate ascii_tables literal_resolver rev rev demo_cfg =
      Ok (runtime ascii_tables literal_resolver rev rev demo_cfg)"
    using nv_Ok_iff [OF demo_cfg_inv is_order_rev is_order_rev] demo_cfg_valid by blast
qed

text \<open>C25: router and health checker see the same backends. If name resolution answers consistently
  during the load, every host of an accepted configuration is routed to exactly the addresses
  of the health-checked group it names.\<close>

theorem routes_match_groups:
  assumes "cfg_inv cfg" and "is_order ordB" and "is_order ordR" and "stable rs"
    and "normalizeAndValidate u rs ordB ordR cfg = Ok rc"
    and "gm_get (rc_HostToGroup rc) h = Some g"
  shows "\<exists>grp \<in> set (rc_BackendGroups rc). gc_Name grp = g \<and> gm_get (rc_Routes rc) h = Some (gc_Addresses grp)"
  using runtime_route_group [OF assms] .

lemma demo_runtime:
  "normalizeAndValidate ascii_tables literal_resolver rev rev demo_cfg =
     Ok (runtime ascii_tables literal_resolver rev rev demo_cfg)"
  using nv_Ok_iff [OF demo_cfg_inv is_order_rev is_order_rev] demo_cfg_valid by blast

lemma demo_cfg_hosts:
  "config_normalizeHost ascii_tables ''API.internal'' = ''api.internal''"
  "config_normalizeHost ascii_tables ''api.example.com'' = ''api.example.com''"
  "TrimSpace ''pool'' = ''pool''"
  by code_simp+

lemma demo_runtime_host:
  "gm_get (rc_HostToGroup (runtime ascii_tables literal_resolver rev rev demo_cfg)) ''api.internal'' = Some ''pool''"
  by (simp add: runtime_def Let_def put_routes_get)
    (simp add: demo_cfg_def the_map_def range_map_def gm_keys_def gm_get_def demo_cfg_hosts)

theorem routes_match_groups_witness:
  "\<exists>grp \<in> set (rc_BackendGroups (runtime ascii_tables literal_resolver rev rev demo_cfg)).
     gc_Name grp = ''pool''
     \<and> gm_get (rc_Routes (runtime ascii_tables literal_resolver rev rev demo_cfg)) ''api.internal'' = Some (gc_Addresses grp)"
  by (rule routes_match_groups [OF demo_cfg_inv is_order_rev is_order_rev literal_resolver_stable demo_runtime
        demo_runtime_host])

text \<open>C26: validation never panics while name resolution answers consistently during the load.\<close>

theorem normalizeAndValidate_no_panic:
  assumes "cfg_inv cfg" and "is_order ordB" and "is_order ordR" and "stable rs"
  shows "normalizeAndValidate u rs ordB ordR cfg \<noteq> Panic"
proof (cases "head_ok rs cfg")
  case False
  then show ?thesis
    using nv_head_fails [of rs cfg u ordB ordR] by auto
next
  case True
  have sets: "set (range_map ordB (bks_of cfg)) = set (bks_of cfg)"
    "set (range_map ordR (rts_of cfg)) = set (rts_of cfg)"
    using assms(1-3) by (auto simp: cfg_inv_def set_range_map)
  have "load_routes u rs (bks_of cfg) (range_map ordR (rts_of cfg)) gm_empty gm_empty \<noteq> Panic"
    if "load_groups u rs (dInterval cfg) (dTimeout cfg) (dPath cfg) (range_map ordB (bks_of cfg)) [] = Ok gs" for gs
  proof
    assume "load_routes u rs (bks_of cfg) (range_map ordR (rts_of cfg)) gm_empty gm_empty = Panic"
    from load_routes_Panic [OF this] obtain e where "route_valid u (bks_of cfg) e"
      and "\<not> route_resolves rs (bks_of cfg) e" by blast
    moreover have "\<forall>e \<in> set (bks_of cfg). group_ok rs (dInterval cfg) (dTimeout cfg) e"
      using that sets by (simp add: load_groups_Ok)
    ultimately show False
      using stable_route_resolves [OF assms(4)] by blast
  qed
  then show ?thesis
    by (auto simp: nv_head [OF True] nv_loops_def split: outcome.splits prod.splits)
qed

theorem normalizeAndValidate_no_panic_witness:
  "normalizeAndValidate ascii_tables literal_resolver rev rev demo_cfg \<noteq> Panic"
  by (rule normalizeAndValidate_no_panic [OF demo_cfg_inv is_order_rev is_order_rev literal_resolver_stable])

lemma load_routes_panics:
  assumes "\<forall>e \<in> set es. route_valid u bks e"
  shows "load_routes u rs bks es routes h2g = Panic \<longleftrightarrow> (\<exists>e \<in> set es. \<not> route_resolves rs bks e)"
  using assms
proof (induction es arbitrary: routes h2g)
  case (Cons e es)
  obtain h g where e: "e = (h, g)" by fastforce
  obtain grp where grp: "gm_get bks (TrimSpace g) = Some grp" "config_normalizeHost u h \<noteq> []" "TrimSpace g \<noteq> []"
    using Cons.prems by (auto simp: route_valid_def e)
  have r: "route_addrs rs h 0 (bg_Addresses grp) = None \<longleftrightarrow> \<not> route_resolves rs bks e"
    using route_addrs_Some [of rs h 0 "bg_Addresses grp"] grp
    by (simp add: e route_resolves_def) (metis not_None_eq)
  show ?case
    using Cons.IH Cons.prems grp r by (cases "route_addrs rs h 0 (bg_Addresses grp)") (auto simp: e Let_def)
qed simp

definition flapping_resolver :: resolver where
  "flapping_resolver site a =
     (case site of AtRoute _ _ \<Rightarrow> Inl (errors_New ''no such host'') | _ \<Rightarrow> literal_resolver site a)"

text \<open>C38: the routes loop resolves every address a second time and drops the error. For a configuration whose settings, groups
  and routes all pass their checks, and for every order of the two maps, validation panics exactly if for some route the second resolution of an
  address of its group fails: the address is then nil.\<close>

theorem second_resolution_panics:
  assumes "cfg_inv cfg" and "is_order ordB" and "is_order ordR" and "head_ok rs cfg"
    and "\<forall>e \<in> set (bks_of cfg). group_ok rs (dInterval cfg) (dTimeout cfg) e"
    and "\<forall>e \<in> set (rts_of cfg). route_valid u (bks_of cfg) e"
  shows "normalizeAndValidate u rs ordB ordR cfg = Panic \<longleftrightarrow>
    (\<exists>(h, g) \<in> set (rts_of cfg). \<exists>grp j. gm_get (bks_of cfg) (TrimSpace g) = Some grp
       \<and> j < length (bg_Addresses grp) \<and> \<not> is_ok (rs (AtRoute h j) (TrimSpace (bg_Addresses grp ! j))))"
proof -
  have B: "set (range_map ordB (bks_of cfg)) = set (bks_of cfg)"
    and R: "set (range_map ordR (rts_of cfg)) = set (rts_of cfg)"
    using assms(1-3) by (auto simp: cfg_inv_def set_range_map)
  have "load_groups u rs (dInterval cfg) (dTimeout cfg) (dPath cfg) (range_map ordB (bks_of cfg)) []
      = Ok ([] @ map (group_config rs (dInterval cfg) (dTimeout cfg) (dPath cfg)) (range_map ordB (bks_of cfg)))"
    using assms(5) by (simp add: load_groups_Ok B)
  then have "normalizeAndValidate u rs ordB ordR cfg = Panic \<longleftrightarrow>
      load_routes u rs (bks_of cfg) (range_map ordR (rts_of cfg)) gm_empty gm_empty = Panic"
    by (auto simp: nv_head [OF assms(4)] nv_loops_def split: outcome.splits prod.splits)
  also have "\<dots> \<longleftrightarrow> (\<exists>e \<in> set (rts_of cfg). \<not> route_resolves rs (bks_of cfg) e)"
    using load_routes_panics [of "range_map ordR (rts_of cfg)" u "bks_of cfg"] assms(6) by (simp add: R)
  also have "\<dots> \<longleftrightarrow> (\<exists>(h, g) \<in> set (rts_of cfg). \<exists>grp j. gm_get (bks_of cfg) (TrimSpace g) = Some grp
       \<and> j < length (bg_Addresses grp) \<and> \<not> is_ok (rs (AtRoute h j) (TrimSpace (bg_Addresses grp ! j))))"
  proof (rule bex_cong [OF refl], clarsimp)
    fix h g assume "(h, g) \<in> set (rts_of cfg)"
    then obtain grp where "gm_get (bks_of cfg) (TrimSpace g) = Some grp"
      using assms(6) by (auto simp: route_valid_def)
    then show "(\<not> route_resolves rs (bks_of cfg) (h, g)) = (\<exists>grp. gm_get (bks_of cfg) (TrimSpace g) = Some grp
       \<and> (\<exists>j < length (bg_Addresses grp). \<not> is_ok (rs (AtRoute h j) (TrimSpace (bg_Addresses grp ! j)))))"
      by (auto simp: route_resolves_def resolves_def in_set_enumerate_eq)
  qed
  finally show ?thesis .
qed

theorem second_resolution_panics_witness:
  "normalizeAndValidate ascii_tables flapping_resolver rev rev demo_cfg = Panic
   \<and> normalizeAndValidate ascii_tables literal_resolver rev rev demo_cfg \<noteq> Panic"
proof
  have h: "head_ok flapping_resolver demo_cfg"
    by code_simp
  have g: "\<forall>e \<in> set (bks_of demo_cfg). group_ok flapping_resolver (dInterval demo_cfg) (dTimeout demo_cfg) e"
    by code_simp
  have r: "\<forall>e \<in> set (rts_of demo_cfg). route_valid ascii_tables (bks_of demo_cfg) e"
    by code_simp
  have "(''API.internal'', ''pool'') \<in> set (rts_of demo_cfg)"
    "gm_get (bks_of demo_cfg) (TrimSpace ''pool'')
       = Some \<lparr>bg_Addresses = [''10.0.1.10:8080'', '' 10.0.1.11:8080 ''], bg_Healthcheck = no_health\<rparr>"
    by (simp_all add: demo_cfg_def the_map_def demo_cfg_hosts gm_get_def)
  then show "normalizeAndValidate ascii_tables flapping_resolver rev rev demo_cfg = Panic"
    unfolding second_resolution_panics [OF demo_cfg_inv is_order_rev is_order_rev h g r]
    by (force simp: flapping_resolver_def)
  show "normalizeAndValidate ascii_tables literal_resolver rev rev demo_cfg \<noteq> Panic"
    by (simp add: demo_runtime)
qed

lemma wrap64_id: "- (2 ^ 63) \<le> x \<Longrightarrow> x < 2 ^ 63 \<Longrightarrow> wrap64 x = x"
  by (simp add: wrap64_def)

lemma wrap64_range: "- (2 ^ 63) \<le> wrap64 x \<and> wrap64 x < 2 ^ 63"
proof -
  have "0 \<le> (x + 2 ^ 63) mod 2 ^ 64" and "(x + 2 ^ 63) mod 2 ^ 64 < 2 ^ 64"
    by (rule pos_mod_sign, simp) (rule pos_mod_bound, simp)
  then show ?thesis
    by (simp add: wrap64_def)
qed

text \<open>Durations from milliseconds. Up to 9223372036854 ms the duration is exact and positive for a
  positive setting, and a setting of zero or less selects the fallback; in every case the result
  is a 64-bit value if the fallback is.\<close>

theorem durationFromMS_exact:
  assumes "ms \<le> 9223372036854" and "- (2 ^ 63) \<le> fallback" and "fallback < 2 ^ 63"
  shows "durationFromMS ms fallback = (if ms \<le> 0 then fallback else ms * Millisecond)
    \<and> (0 < ms \<longrightarrow> 0 < durationFromMS ms fallback)
    \<and> - (2 ^ 63) \<le> durationFromMS ms fallback \<and> durationFromMS ms fallback < 2 ^ 63"
  using assms wrap64_id [of "ms * Millisecond"] by (auto simp: durationFromMS_def)

theorem durationFromMS_exact_witness:
  "durationFromMS 5000 defaultHealthInterval = 5 * Second"
  using durationFromMS_exact [of 5000 defaultHealthInterval] by (simp add: default_durations)

definition overflow_cfg :: Config where
  "overflow_cfg = demo_cfg\<lparr>cf_Healthcheck := no_health\<lparr>hc_IntervalMS := 9223372036855, hc_TimeoutMS := 9223372036855\<rparr>\<rparr>"

text \<open>Beyond that bound the multiplication overflows unnoticed: a configuration whose health
  interval and timeout are 9223372036855 ms is accepted, and every group without own settings
  gets a negative interval (on which \<open>time.NewTicker\<close> panics).\<close>

theorem overflowing_interval_accepted:
  "\<exists>rc. normalizeAndValidate ascii_tables literal_resolver (\<lambda>ks. ks) (\<lambda>ks. ks) overflow_cfg = Ok rc
     \<and> map gc_Interval (rc_BackendGroups rc) = [- 9223372036854551616]"
proof -
  have g: "\<forall>e \<in> set (bks_of overflow_cfg). group_ok literal_resolver (dInterval overflow_cfg) (dTimeout overflow_cfg) e"
    by code_simp
  have "\<forall>e \<in> set (rts_of overflow_cfg). route_valid ascii_tables (bks_of overflow_cfg) e"
    by code_simp
  moreover have "head_ok literal_resolver overflow_cfg"
    by code_simp
  ultimately have v: "cfg_valid ascii_tables literal_resolver overflow_cfg"
    using g stable_route_resolves [OF literal_resolver_stable _ g] by (auto simp: cfg_valid_def)
  have i: "cfg_inv overflow_cfg"
    using demo_cfg_inv by (simp add: cfg_inv_def overflow_cfg_def)
  have "map gc_Interval (map (group_config literal_resolver (dInterval overflow_cfg) (dTimeout overflow_cfg)
      (dPath overflow_cfg)) (bks_of overflow_cfg)) = [- 9223372036854551616]"
    by (simp add: overflow_cfg_def demo_cfg_def the_map_def group_config_def no_health_def durationFromMS_def wrap64_def)
  then show ?thesis
    using nv_Ok_iff [OF i is_order_id is_order_id, of ascii_tables literal_resolver] v i
    by (auto simp: runtime_def Let_def cfg_inv_def)
qed

lemma fixed_literal_valid:
  assumes "cfg_inv cfg" and "is_order ordB" and "is_order ordR" and "head_ok literal_resolver cfg"
    and "\<forall>e \<in> set (bks_of cfg). group_ok literal_resolver (dInterval cfg) (dTimeout cfg) e"
    and "\<forall>e \<in> set (rts_of cfg). route_valid u (bks_of cfg) e"
  shows "normalizeAndValidate u literal_resolver ordB ordR cfg = Ok (runtime u literal_resolver ordB ordR cfg)"
  using nv_Ok_iff [OF assms(1-3)] stable_route_resolves [OF literal_resolver_stable _ assms(5)] assms(4-6)
  by (auto simp: cfg_valid_def)

definition twice_cfg :: Config where
  "twice_cfg = demo_cfg\<lparr>
     cf_Backends := Some [(''a'', \<lparr>bg_Addresses = [''10.0.0.1:80''], bg_Healthcheck = no_health\<rparr>),
                          (''b'', \<lparr>bg_Addresses = [''10.0.0.2:80''], bg_Healthcheck = no_health\<rparr>)],
     cf_Routes := Some [(''API'', ''a''), (''api.'', ''b'')]\<rparr>"

lemma twice_cfg_runtime:
  assumes "is_order ord"
  shows "normalizeAndValidate ascii_tables literal_resolver (\<lambda>ks. ks) ord twice_cfg
    = Ok (runtime ascii_tables literal_resolver (\<lambda>ks. ks) ord twice_cfg)"
proof (rule fixed_literal_valid [OF _ is_order_id assms])
  show "cfg_inv twice_cfg"
    by (simp add: cfg_inv_def twice_cfg_def the_map_def gm_inv_def)
  show "head_ok literal_resolver twice_cfg"
    by code_simp
  show "\<forall>e \<in> set (bks_of twice_cfg). group_ok literal_resolver (dInterval twice_cfg) (dTimeout twice_cfg) e"
    by code_simp
  show "\<forall>e \<in> set (rts_of twice_cfg). route_valid ascii_tables (bks_of twice_cfg) e"
    by code_simp
qed

lemma twice_cfg_hosts:
  "config_normalizeHost ascii_tables ''API'' = ''api''"
  "config_normalizeHost ascii_tables ''api.'' = ''api''"
  "route_targets literal_resolver (bks_of twice_cfg) (''API'', ''a'') = [''10.0.0.1:80'']"
  "route_targets literal_resolver (bks_of twice_cfg) (''api.'', ''b'') = [''10.0.0.2:80'']"
  "range_map (\<lambda>ks. ks) (rts_of twice_cfg) = [(''API'', ''a''), (''api.'', ''b'')]"
  "range_map rev (rts_of twice_cfg) = [(''api.'', ''b''), (''API'', ''a'')]"
  by code_simp+

text \<open>Two route keys that differ only in letter case or in a trailing dot are one host, and which
  of them wins depends on the order in which Go ranges over the map: the same file gives two
  different routing tables.\<close>

theorem duplicate_hosts_order_dependent:
  "\<exists>rc rc'. normalizeAndValidate ascii_tables literal_resolver (\<lambda>ks. ks) (\<lambda>ks. ks) twice_cfg = Ok rc
     \<and> normalizeAndValidate ascii_tables literal_resolver (\<lambda>ks. ks) rev twice_cfg = Ok rc'
     \<and> gm_get (rc_Routes rc) ''api'' = Some [''10.0.0.2:80'']
     \<and> gm_get (rc_Routes rc') ''api'' = Some [''10.0.0.1:80'']"
  unfolding twice_cfg_runtime [OF is_order_id] twice_cfg_runtime [OF is_order_rev]
  by (simp add: runtime_def Let_def put_routes_get twice_cfg_hosts)

text \<open>The group name that auto-discovery derives from a host key.\<close>

definition auto_name :: "(string, BackendGroup) gomap \<Rightarrow> string \<Rightarrow> string" where
  "auto_name bks hostKey =
     (let name0 = ''auto-'' @ ReplaceAll1 CHR '':'' CHR ''-'' (ReplaceAll1 CHR ''.'' CHR ''-'' hostKey)
      in if gm_get bks name0 \<noteq> None then name0 @ ''-'' @ fmt_d (int (length bks)) else name0)"

definition auto_group :: "string list \<Rightarrow> BackendGroup" where
  "auto_group addresses = \<lparr>bg_Addresses = addresses, bg_Healthcheck = no_health\<rparr>"

lemma AddAuto_adds:
  assumes "config_normalizeHost u host = k" and "k \<noteq> []" and "addresses \<noteq> []" and "gm_get (rts_of cfg) k = None"
  shows "AddAutoDiscoveredRoute u cfg host addresses =
    (Inr True, cfg\<lparr>cf_Backends := Some (gm_put (auto_name (bks_of cfg) k) (auto_group addresses) (bks_of cfg)),
                   cf_Routes := Some (gm_put k (auto_name (bks_of cfg) k) (rts_of cfg))\<rparr>)"
  using assms by (simp add: AddAutoDiscoveredRoute_def auto_name_def auto_group_def no_health_def Let_def)

lemma the_map_Some [simp]: "the_map (Some x) = x"
  by (simp add: the_map_def)

text \<open>The edit of auto-discovery, branch by branch. It reports an addition exactly for a host that
  is not empty and has no route yet, with at least one address; then exactly the host's route
  and the group it names are set, the group to the given addresses with default health checks.
  Otherwise no route and no group changes; the other settings never change.\<close>

theorem AddAutoDiscoveredRoute_effect:
  assumes "cfg_inv cfg" and "AddAutoDiscoveredRoute u cfg host addresses = (r, cfg')"
    and "config_normalizeHost u host = k"
  shows "cfg_inv cfg'
    \<and> cfg'\<lparr>cf_Backends := cf_Backends cfg, cf_Routes := cf_Routes cfg\<rparr> = cfg
    \<and> (r = Inr True \<longleftrightarrow> k \<noteq> [] \<and> addresses \<noteq> [] \<and> gm_get (rts_of cfg) k = None)
    \<and> (r = Inr False \<longleftrightarrow> k \<noteq> [] \<and> addresses \<noteq> [] \<and> gm_get (rts_of cfg) k \<noteq> None)
    \<and> (r \<noteq> Inr True \<longrightarrow> bks_of cfg' = bks_of cfg \<and> rts_of cfg' = rts_of cfg)
    \<and> (r = Inr True \<longrightarrow> gm_get (rts_of cfg') = (gm_get (rts_of cfg))(k \<mapsto> auto_name (bks_of cfg) k)
        \<and> gm_get (bks_of cfg') = (gm_get (bks_of cfg))(auto_name (bks_of cfg) k \<mapsto> auto_group addresses))"
  using assms
  by (auto simp: AddAutoDiscoveredRoute_def auto_name_def auto_group_def no_health_def cfg_inv_def Let_def
      gm.inv_put gm.get_put fun_eq_iff split: if_splits)

lemma demo_new_host: "config_normalizeHost ascii_tables ''New.Internal.'' = ''new.internal''"
  by code_simp

theorem AddAutoDiscoveredRoute_effect_witness:
  "\<exists>cfg'. AddAutoDiscoveredRoute ascii_tables demo_cfg ''New.Internal.'' [''10.0.0.9:443''] = (Inr True, cfg')
     \<and> gm_get (rts_of cfg') = (gm_get (rts_of demo_cfg))(''new.internal'' \<mapsto> auto_name (bks_of demo_cfg) ''new.internal'')"
proof -
  obtain r cfg' where e: "AddAutoDiscoveredRoute ascii_tables demo_cfg ''New.Internal.'' [''10.0.0.9:443''] = (r, cfg')"
    by fastforce
  have "gm_get (rts_of demo_cfg) ''new.internal'' = None"
    by (simp add: demo_cfg_def gm_get_def)
  then show ?thesis
    using AddAutoDiscoveredRoute_effect [OF demo_cfg_inv e demo_new_host] e by auto
qed

definition add_all :: "(string \<times> string list) list \<Rightarrow> Config \<Rightarrow> bool result list \<times> Config" where
  "add_all xs cfg = foldl (\<lambda>(rs, c) (h, as).
     let (r, c') = AddAutoDiscoveredRoute ascii_tables c h as in (rs @ [r], c')) ([], cfg) xs"

text \<open>The name that resolves a clash of group names may itself be taken. Three discovered hosts
  are enough: the last one overwrites the group of the second, whose route then leads to
  the addresses of the last.\<close>

theorem discovered_group_overwritten:
  "\<exists>cfg'. add_all [(''a-b'', [''10.0.0.1:80'']), (''a.b.3'', [''10.0.0.2:80'']), (''a.b'', [''10.0.0.3:80''])] demo_cfg
       = ([Inr True, Inr True, Inr True], cfg')
     \<and> gm_get (rts_of cfg') ''a.b.3'' = Some ''auto-a-b-3''
     \<and> gm_get (bks_of cfg') ''auto-a-b-3'' = Some (auto_group [''10.0.0.3:80''])"
proof -
  have "config_normalizeHost ascii_tables ''a-b'' = ''a-b''"
    "config_normalizeHost ascii_tables ''a.b.3'' = ''a.b.3''"
    "config_normalizeHost ascii_tables ''a.b'' = ''a.b''"
    by code_simp+
  moreover have "fmt_d 3 = ''3''"
    by code_simp
  ultimately show ?thesis
    by (simp add: add_all_def AddAutoDiscoveredRoute_def auto_group_def no_health_def demo_cfg_def gm_get_def
        gm_put_def ReplaceAll1_def Let_def)
qed

end
