(* ===== verification/Health.thy ===== *)
theory Health
  imports Router Config Metrics
begin

text \<open>
  The health checker, \<open>internal/health/checker.go\<close>: one worker per address of a backend group, which
  probes the address at once and then at every tick, and reports the result to the router and to the
  metrics for every host that uses the group. The network is an argument: \<open>dial\<close> for
  \<open>net.DialTimeout\<close> and \<open>get\<close> for the HTTP client, one answer per probe. Router, collector
  and log are the shared state of the workers.
\<close>

section \<open>State\<close>

record Checker =
  ck_groups :: "BackendGroupConfig list"
  groupToHosts :: "(string, string list) gomap"

record shared =
  sh_router :: Router
  sh_metrics :: collector
  sh_log :: "string list"

datatype probe_kind = L4 | L7

record worker =
  wk_kind :: probe_kind
  wk_group :: BackendGroupConfig
  wk_address :: string
  wk_hosts :: "string list"

section \<open>Construction\<close>

definition hosts_of :: "(string, string list) gomap \<Rightarrow> string \<Rightarrow> string list" where
  "hosts_of m g = (case gm_get m g of None \<Rightarrow> [] | Some hs \<Rightarrow> hs)"

definition add_host :: "(string, string list) gomap \<Rightarrow> string \<times> string \<Rightarrow> (string, string list) gomap" where
  "add_host m e = gm_put (snd e) (hosts_of m (snd e) @ [fst e]) m"

definition health_New :: "key_order \<Rightarrow> BackendGroupConfig list \<Rightarrow> (string, string) gomap \<Rightarrow> Checker" where
  "health_New ord groups hostToGroup =
     \<lparr>ck_groups = groups, groupToHosts = foldl add_host gm_empty (range_map ord hostToGroup)\<rparr>"

text \<open>The workers \<open>Start\<close> spawns, in order.\<close>

definition Start :: "Checker \<Rightarrow> worker list" where
  "Start c = concat (map (\<lambda>g. map (\<lambda>a.
     \<lparr>wk_kind = (if gc_Path g = [] then L4 else L7), wk_group = g, wk_address = a,
      wk_hosts = hosts_of (groupToHosts c) (gc_Name g)\<rparr>) (gc_Addresses g)) (ck_groups c))"

section \<open>Probes\<close>

definition probeL4 :: "(string \<Rightarrow> int \<Rightarrow> unit result) \<Rightarrow> string \<Rightarrow> int \<Rightarrow> bool" where
  "probeL4 dial addr timeout = (case dial addr timeout of Inl _ \<Rightarrow> False | Inr _ \<Rightarrow> True)"

text \<open>The client is its timeout; it does not follow redirects. \<open>get\<close> gives the status code.\<close>

definition probeL7 :: "(int \<Rightarrow> string \<Rightarrow> nat result) \<Rightarrow> int \<Rightarrow> string \<Rightarrow> bool" where
  "probeL7 get client url = (case get client url of Inl _ \<Rightarrow> False | Inr status \<Rightarrow> status = 200)"

definition health_line :: "probe_kind \<Rightarrow> string \<Rightarrow> string \<Rightarrow> string \<Rightarrow> bool \<Rightarrow> string" where
  "health_line kind path host addr isup =
     ''health: backend '' @ (if isup then ''alive'' else ''dead'') @ '' host='' @ host @ '' backend='' @ addr
       @ (case kind of L4 \<Rightarrow> [] | L7 \<Rightarrow> '' (L7 '' @ path @ '')'')"

text \<open>The body of the loop over the hosts, the same in both workers up to the log line.\<close>

definition report :: "unicode \<Rightarrow> probe_kind \<Rightarrow> string \<Rightarrow> string \<Rightarrow> bool \<Rightarrow> string \<Rightarrow> shared \<Rightarrow> shared" where
  "report u kind path addr isup host st =
     (let m = ObserveHealthcheck host addr isup (sh_metrics st);
          (res, r) = SetBackendAlive u (sh_router st) host addr isup
      in case res of
           Inl e \<Rightarrow> st\<lparr>sh_router := r, sh_metrics := m, sh_log := sh_log st
             @ [''health: failed to update backend state host='' @ host @ '' backend='' @ addr @ '' err='' @ err_msg e]\<rparr>
         | Inr changed \<Rightarrow> st\<lparr>sh_router := r, sh_metrics := m, sh_log := sh_log st
             @ (if changed then [health_line kind path host addr isup] else [])\<rparr>)"

definition probe_L4 ::
  "unicode \<Rightarrow> (string \<Rightarrow> int \<Rightarrow> unit result) \<Rightarrow> BackendGroupConfig \<Rightarrow> string \<Rightarrow> string list \<Rightarrow> shared \<Rightarrow> shared" where
  "probe_L4 u dial g addr hosts st =
     (let isup = probeL4 dial addr (gc_Timeout g) in fold (report u L4 [] addr isup) hosts st)"

definition probe_L7 ::
  "unicode \<Rightarrow> (int \<Rightarrow> string \<Rightarrow> nat result) \<Rightarrow> BackendGroupConfig \<Rightarrow> string \<Rightarrow> string list \<Rightarrow> shared \<Rightarrow> shared" where
  "probe_L7 u get g addr hosts st =
     (let isup = probeL7 get (gc_Timeout g) (''http://'' @ addr @ gc_Path g)
      in fold (report u L7 (gc_Path g) addr isup) hosts st)"

section \<open>Workers\<close>

text \<open>The loop of a worker over the outcomes of its \<open>select\<close>: a tick probes again, the end of the
  context returns (\<open>True\<close>); with no further outcome the worker waits (\<open>False\<close>). \<open>probe n\<close>
  is the \<open>n\<close>-th probe.\<close>

datatype wake = CtxDone | Tick

fun worker_loop :: "(nat \<Rightarrow> shared \<Rightarrow> shared) \<Rightarrow> nat \<Rightarrow> wake list \<Rightarrow> shared \<Rightarrow> bool \<times> shared" where
  "worker_loop probe n [] st = (False, st)"
| "worker_loop probe n (CtxDone # ws) st = (True, st)"
| "worker_loop probe n (Tick # ws) st = worker_loop probe (Suc n) ws (probe n st)"

text \<open>\<open>time.NewTicker\<close> panics on an interval that is not positive.\<close>

definition runL4Worker ::
  "unicode \<Rightarrow> (nat \<Rightarrow> string \<Rightarrow> int \<Rightarrow> unit result) \<Rightarrow> BackendGroupConfig \<Rightarrow> string \<Rightarrow> string list
     \<Rightarrow> wake list \<Rightarrow> shared \<Rightarrow> (bool \<times> shared) outcome" where
  "runL4Worker u dials g addr hosts ws st =
     (if gc_Interval g \<le> 0 then Panic
      else let probe = (\<lambda>n. probe_L4 u (dials n) g addr hosts)
           in Ok (worker_loop probe 1 ws (probe 0 st)))"

definition runL7Worker ::
  "unicode \<Rightarrow> (nat \<Rightarrow> int \<Rightarrow> string \<Rightarrow> nat result) \<Rightarrow> BackendGroupConfig \<Rightarrow> string \<Rightarrow> string list
     \<Rightarrow> wake list \<Rightarrow> shared \<Rightarrow> (bool \<times> shared) outcome" where
  "runL7Worker u gets g addr hosts ws st =
     (if gc_Interval g \<le> 0 then Panic
      else let probe = (\<lambda>n. probe_L7 u (gets n) g addr hosts)
           in Ok (worker_loop probe 1 ws (probe 0 st)))"

section \<open>The hosts of a group\<close>

lemma hosts_of_foldl:
  "hosts_of (foldl add_host gm_empty es) g = map fst (filter (\<lambda>e. snd e = g) es)"
  by (induction es rule: rev_induct) (auto simp: add_host_def hosts_of_def gm.get_put gm.get_empty)

lemma hosts_of_New:
  "hosts_of (groupToHosts (health_New ord groups h2g)) g = map fst (filter (\<lambda>e. snd e = g) (range_map ord h2g))"
  by (simp add: health_New_def hosts_of_foldl)

section \<open>What a probe does to the table\<close>

lemma report_router: "sh_router (report u kind path a v h st) = snd (SetBackendAlive u (sh_router st) h a v)"
  by (simp add: report_def Let_def split: prod.split sum.split)

lemma report_metrics: "sh_metrics (report u kind path a v h st) = ObserveHealthcheck h a v (sh_metrics st)"
  by (simp add: report_def Let_def split: prod.split sum.split)

lemma reports_router:
  "sh_router (fold (report u kind path a v) hosts st)
     = foldl (router_step u) (sh_router st) (map (\<lambda>h. OpSet h a v) hosts)"
  by (induction hosts arbitrary: st) (simp_all add: report_router router_step_def)

lemma reports_metrics:
  "sh_metrics (fold (report u kind path a v) hosts st) = observe (map (\<lambda>h. Healthcheck h a v) hosts) (sh_metrics st)"
  by (induction hosts arbitrary: st) (simp_all add: report_metrics)

lemma mark_mark: "mark a v (mark a v xs) = mark a v xs"
  by (induction xs) auto

text \<open>What reports for several hosts leave of a table: in the pools of these hosts the first backend with the address has the
  new state; nothing else is different.\<close>

fun mark_first :: "string \<Rightarrow> bool \<Rightarrow> backend list \<Rightarrow> backend list" where
  "mark_first a v [] = []"
| "mark_first a v (b # bs) = (if address b = a then b\<lparr>alive := of_bool v\<rparr> # bs else b # mark_first a v bs)"

definition marked :: "unicode \<Rightarrow> string set \<Rightarrow> string \<Rightarrow> bool \<Rightarrow> Router \<Rightarrow> Router" where
  "marked u hosts a v r = r\<lparr>pools := map (\<lambda>(k, p).
     (k, if k \<in> normalizeHost u ` hosts then p\<lparr>backends := mark_first a v (backends p)\<rparr> else p)) (pools r)\<rparr>"

lemma swap_alive_mark_first:
  "mark_first a v bs = (case swap_alive a (of_bool v) bs of None \<Rightarrow> bs | Some (c, bs') \<Rightarrow> bs')"
  by (induction bs) (auto split: option.splits)

lemma mark_first_twice [simp]: "mark_first a v (mark_first a v bs) = mark_first a v bs"
  by (induction bs) auto

lemma gm_put_map:
  "gm_inv m \<Longrightarrow> gm_get m k = Some p \<Longrightarrow> gm_put k (f p) m = map (\<lambda>(j, q). (j, if j = k then f q else q)) m"
proof (induction m)
  case (Cons x m)
  obtain j q where x: "x = (j, q)" by fastforce
  have "map (\<lambda>(j', q). (j', if j' = k then f q else q)) m = m" if "j = k"
    using Cons.prems(1) that by (intro map_idI) (force simp: x gm_inv_def)
  then show ?case
    using Cons by (auto simp: x gm_put_def gm_get_def gm_inv_def)
qed (simp add: gm_get_def)

lemma SetBackendAlive_marked:
  assumes "gm_inv (pools r)"
  shows "snd (SetBackendAlive u r h a v) = marked u {h} a v r"
proof (cases "gm_get (pools r) (normalizeHost u h)")
  case None
  then have "normalizeHost u h \<notin> fst ` set (pools r)"
    by (auto simp: gm_get_def map_of_eq_None_iff)
  then have "pools (marked u {h} a v r) = pools r"
    by (force simp: marked_def intro!: map_idI)
  then have "marked u {h} a v r = r"
    by (simp add: marked_def)
  then show ?thesis
    using None by (simp add: SetBackendAlive_def)
next
  case (Some p)
  let ?f = "\<lambda>p. p\<lparr>backends := mark_first a v (backends p)\<rparr>"
  have m: "marked u {h} a v r = r\<lparr>pools := gm_put (normalizeHost u h) (?f p) (pools r)\<rparr>"
    by (simp add: marked_def gm_put_map [OF assms Some, of ?f])
  have n: "(if v then 1 else 0) = (of_bool v :: 32 word)"
    by simp
  show ?thesis
  proof (cases "swap_alive a (of_bool v) (backends p)")
    case None
    then have "?f p = p"
      by (simp add: swap_alive_mark_first)
    then have "r\<lparr>pools := gm_put (normalizeHost u h) (?f p) (pools r)\<rparr> = r"
      using Some by (simp add: gm_put_def gm_get_def update_triv)
    then show ?thesis
      using Some None by (simp add: SetBackendAlive_def m n)
  next
    case (Some q)
    then show ?thesis
      using \<open>gm_get _ _ = Some p\<close> by (cases q) (simp add: SetBackendAlive_def m n swap_alive_mark_first)
  qed
qed

lemma marked_inv: "gm_inv (pools r) \<Longrightarrow> gm_inv (pools (marked u hs a v r))"
  by (simp add: marked_def gm_inv_def comp_def case_prod_beta)

lemma marked_marked: "marked u hs a v (marked u hs' a v r) = marked u (hs \<union> hs') a v r"
proof -
  have "pools (marked u hs a v (marked u hs' a v r)) = pools (marked u (hs \<union> hs') a v r)"
    by (auto simp: marked_def image_Un)
  then show ?thesis
    by (simp add: marked_def)
qed

lemma reports_marked:
  "gm_inv (pools (sh_router st)) \<Longrightarrow>
     sh_router (fold (report u kind path a v) hosts st) = marked u (set hosts) a v (sh_router st)"
proof (induction hosts arbitrary: st)
  case Nil
  then show ?case
    by (auto simp: marked_def intro!: map_idI [symmetric])
next
  case (Cons h hosts)
  then show ?case
    by (simp add: report_router SetBackendAlive_marked marked_inv marked_marked Un_commute)
qed

lemma reports_log: "\<exists>ls. sh_log (fold (report u kind path a v) hosts st) = sh_log st @ ls"
proof (induction hosts arbitrary: st)
  case (Cons h hosts)
  have "\<exists>ls. sh_log (report u kind path a v h st) = sh_log st @ ls"
    by (simp add: report_def Let_def split: prod.split sum.split)
  then show ?case
    using Cons.IH [of "report u kind path a v h st"] by auto
qed simp

text \<open>Marking an address for several hosts, over the contract of the table.\<close>

context backend_table
begin

lemma marks_vw:
  "vw (foldl step r (map (\<lambda>h. OpSet h a v) hosts)) h' =
     (if key h' \<in> key ` set hosts then map_option (mark a v) (vw r h') else vw r h')"
proof (induction hosts rule: rev_induct)
  case (snoc h hosts)
  then show ?case
    by (auto simp: step_def set_vw option.map_comp comp_def mark_mark)
qed simp

lemma marked_down_not_picked:
  assumes "inv r" and "h \<in> set hosts" and "vw r h = Some xs" and "distinct (map fst xs)"
    and "\<forall>h'. key h' = key h \<longrightarrow> OpSet h' a True \<notin> set ops"
  shows "fst (pick (foldl step r (map (\<lambda>h. OpSet h a False) hosts @ ops)) h) \<noteq> Inr a"
proof -
  have "vw (foldl step r (map (\<lambda>h. OpSet h a False) hosts)) h = Some (mark a False xs)"
    using assms(2,3) by (auto simp: marks_vw)
  from down_not_picked [OF run_inv [OF assms(1)] this mark_False_distinct [OF assms(4)] assms(5)]
  show ?thesis by simp
qed

end

section \<open>Properties\<close>

text \<open>The checker inverts the host map: the hosts of a group are exactly the hosts that the
  configuration sends to it, each once, whatever the order of map iteration.\<close>

theorem groupToHosts_inverts:
  assumes "is_order ord" and "gm_inv h2g"
  shows "distinct (hosts_of (groupToHosts (health_New ord groups h2g)) g)
    \<and> set (hosts_of (groupToHosts (health_New ord groups h2g)) g) = {h. gm_get h2g h = Some g}"
proof -
  have "distinct (map fst (filter (\<lambda>e. snd e = g) (range_map ord h2g)))"
    using distinct_range_map [OF assms] by (rule distinct_map_filter)
  moreover have "fst ` {e \<in> set h2g. snd e = g} = {h. gm_get h2g h = Some g}"
    using gm_get_iff [OF assms(2)] by force
  ultimately show ?thesis
    by (simp add: hosts_of_New set_range_map [OF assms])
qed

definition demo_h2g :: "(string, string) gomap" where
  "demo_h2g = [(''api.internal'', ''pool''), (''db'', ''db''), (''api.example.com'', ''pool'')]"

theorem groupToHosts_inverts_witness:
  "set (hosts_of (groupToHosts (health_New rev [] demo_h2g)) ''pool'') = {''api.internal'', ''api.example.com''}"
proof -
  have "gm_inv demo_h2g"
    by (simp add: gm_inv_def demo_h2g_def)
  then have "set (hosts_of (groupToHosts (health_New rev [] demo_h2g)) ''pool'') = {h. gm_get demo_h2g h = Some ''pool''}"
    using groupToHosts_inverts [OF is_order_rev] by blast
  then show ?thesis
    by (auto simp: demo_h2g_def gm_get_def split: if_splits)
qed

lemma group_hosts:
  "is_order ord \<Longrightarrow> gm_inv h2g \<Longrightarrow> gm_get h2g h = Some g \<Longrightarrow>
     h \<in> set (hosts_of (groupToHosts (health_New ord groups h2g)) g)"
  using gm_get_in_set [of h2g h g] by (force simp: hosts_of_New set_range_map)

lemma Start_worker:
  "g \<in> set (ck_groups c) \<Longrightarrow> a \<in> set (gc_Addresses g) \<Longrightarrow>
     \<lparr>wk_kind = (if gc_Path g = [] then L4 else L7), wk_group = g, wk_address = a,
      wk_hosts = hosts_of (groupToHosts c) (gc_Name g)\<rparr> \<in> set (Start c)"
  by (auto simp: Start_def)

text \<open>C17: no backend goes unwatched. In an accepted configuration with consistent name resolution every
  address a host is routed to has a worker that reports to this host.\<close>

theorem every_route_probed:
  assumes "cfg_inv cfg" and "is_order ordB" and "is_order ordR" and "is_order ordH" and "stable rs"
    and "normalizeAndValidate u rs ordB ordR cfg = Ok rc"
    and "gm_get (rc_Routes rc) h = Some addrs" and "a \<in> set addrs"
  shows "\<exists>w \<in> set (Start (health_New ordH (rc_BackendGroups rc) (rc_HostToGroup rc))).
    wk_address w = a \<and> h \<in> set (wk_hosts w)"
proof -
  have wf: "runtime_wf rc"
    using nv_Ok_iff [OF assms(1-3), of u rs rc] assms(6) runtime_wf_valid [OF assms(1-3), of u rs] by simp
  then obtain g where g: "gm_get (rc_HostToGroup rc) h = Some g"
    using assms(7) by (fastforce simp: runtime_wf_def gm.keys_get)
  obtain grp where grp: "grp \<in> set (rc_BackendGroups rc)" "gc_Name grp = g" "gc_Addresses grp = addrs"
    using runtime_route_group [OF assms(1-3,5,6) g] assms(7) by auto
  have "h \<in> set (hosts_of (groupToHosts (health_New ordH (rc_BackendGroups rc) (rc_HostToGroup rc))) g)"
    using wf g assms(4) by (intro group_hosts) (auto simp: runtime_wf_def)
  then show ?thesis
    using Start_worker [of grp "health_New ordH (rc_BackendGroups rc) (rc_HostToGroup rc)" a] grp assms(8)
    by (force simp: health_New_def)
qed

lemma demo_runtime_route:
  "gm_get (rc_Routes (runtime ascii_tables literal_resolver rev rev demo_cfg)) ''api.internal''
     = Some [''10.0.1.10:8080'', ''10.0.1.11:8080'']"
proof -
  have "route_targets literal_resolver (bks_of demo_cfg) (''API.internal'', ''pool'') = [''10.0.1.10:8080'', ''10.0.1.11:8080'']"
    by code_simp
  moreover have "range_map rev (rts_of demo_cfg) = [(''api.example.com'', '' pool''), (''API.internal'', ''pool'')]"
    by code_simp
  ultimately show ?thesis
    by (simp add: runtime_def Let_def put_routes_get demo_cfg_hosts)
qed

theorem every_route_probed_witness:
  "\<exists>w \<in> set (Start (health_New rev (rc_BackendGroups (runtime ascii_tables literal_resolver rev rev demo_cfg))
      (rc_HostToGroup (runtime ascii_tables literal_resolver rev rev demo_cfg)))).
     wk_address w = ''10.0.1.11:8080'' \<and> ''api.internal'' \<in> set (wk_hosts w)"
  by (rule every_route_probed [OF demo_cfg_inv is_order_rev is_order_rev is_order_rev literal_resolver_stable
        demo_runtime demo_runtime_route]) simp

text \<open>C19: a probe reports its result to every host of the group and to nothing else: in the pools of these hosts the
  first backend with the address gets the result as its state; all other backends and pools, the round-robin counters and the reverse
  index stay as they are, the table stays well-formed, the metrics count one check per host, and the log only grows.\<close>

theorem probe_reports:
  assumes "router_wf (sh_router st)"
  shows "(let isup = probeL4 dial a (gc_Timeout g); st' = probe_L4 u dial g a hosts st in
      router_wf (sh_router st') \<and> sh_router st' = marked u (set hosts) a isup (sh_router st)
      \<and> sh_metrics st' = observe (map (\<lambda>h. Healthcheck h a isup) hosts) (sh_metrics st)
      \<and> (\<exists>ls. sh_log st' = sh_log st @ ls))
    \<and> (let isup = probeL7 get (gc_Timeout g) (''http://'' @ a @ gc_Path g); st' = probe_L7 u get g a hosts st in
      router_wf (sh_router st') \<and> sh_router st' = marked u (set hosts) a isup (sh_router st)
      \<and> sh_metrics st' = observe (map (\<lambda>h. Healthcheck h a isup) hosts) (sh_metrics st)
      \<and> (\<exists>ls. sh_log st' = sh_log st @ ls))"
proof -
  have i: "gm_inv (pools (sh_router st))"
    using assms by (simp add: router_wf_def)
  have w: "router_wf (marked u (set hosts) a v (sh_router st))" for v
    using bt.run_inv [OF assms, of u "map (\<lambda>h. OpSet h a v) hosts"] reports_router [of u L4 "[]" a v hosts st]
    by (simp add: reports_marked [OF i])
  show ?thesis
    by (simp add: probe_L4_def probe_L7_def Let_def reports_metrics reports_marked [OF i] reports_log w)
qed

definition demo_shared :: shared where
  "demo_shared = \<lparr>sh_router = demo_router, sh_metrics = NewCollector, sh_log = []\<rparr>"

definition demo_group :: BackendGroupConfig where
  "demo_group = \<lparr>gc_Name = ''pool'', gc_Addresses = [''10.0.1.10:8080'', ''10.0.1.11:8080''],
     gc_Interval = 5 * Second, gc_Timeout = 2 * Second, gc_Path = []\<rparr>"

definition refused :: "string \<Rightarrow> int \<Rightarrow> unit result" where
  "refused a t = Inl (errors_New ''connection refused'')"

lemma demo_view: "view ascii_tables demo_router ''api.internal'' = Some [(''10.0.1.10:8080'', True), (''10.0.1.11:8080'', True)]"
  by (simp add: view_def demo_pool_api fresh_backends_def up_def)

theorem probe_reports_witness:
  "sh_router (probe_L4 ascii_tables refused demo_group ''10.0.1.11:8080'' [''api.internal''] demo_shared)
     = marked ascii_tables {''api.internal''} ''10.0.1.11:8080'' False demo_router"
  using probe_reports [of demo_shared refused "''10.0.1.11:8080''" demo_group ascii_tables "[''api.internal'']"]
  by (simp add: Let_def demo_shared_def demo_router_wf probeL4_def refused_def)

text \<open>C18: an address whose probe failed, by TCP or by HTTP, gets no new connections: after the probe, no pick for a host of
  the group returns it, under any further picks and reports, until a report says it is alive again. The
  pool of the host must not list an address twice.\<close>

theorem failed_probe_isolates:
  assumes "router_wf (sh_router st)" and "h \<in> set hosts" and "view u (sh_router st) h = Some xs"
    and "distinct (map fst xs)"
    and "(\<not> probeL4 dial a (gc_Timeout g) \<and> st' = probe_L4 u dial g a hosts st)
      \<or> (\<not> probeL7 get (gc_Timeout g) (''http://'' @ a @ gc_Path g) \<and> st' = probe_L7 u get g a hosts st)"
    and "\<forall>h'. normalizeHost u h' = normalizeHost u h \<longrightarrow> OpSet h' a True \<notin> set ops"
  shows "fst (Pick u (foldl (router_step u) (sh_router st') ops) h) \<noteq> Inr a"
  using bt.marked_down_not_picked [OF assms(1-4,6)] assms(5)
  by (auto simp: probe_L4_def probe_L7_def Let_def reports_router)

theorem failed_probe_isolates_witness:
  "fst (Pick ascii_tables (foldl (router_step ascii_tables)
      (sh_router (probe_L4 ascii_tables refused demo_group ''10.0.1.11:8080'' [''api.internal''] demo_shared))
      [OpPick ''api.internal'', OpSet ''api.internal'' ''10.0.1.10:8080'' False]) ''api.internal'') \<noteq> Inr ''10.0.1.11:8080''"
  by (rule failed_probe_isolates [where xs = "[(''10.0.1.10:8080'', True), (''10.0.1.11:8080'', True)]" and dial = refused
        and g = demo_group and st = demo_shared and hosts = "[''api.internal'']"])
    (simp_all add: demo_shared_def demo_router_wf demo_view probeL4_def refused_def)

text \<open>A worker probes once at the start and once per tick, and stops for good when its context
  ends; it panics exactly if the interval is not positive.\<close>

lemma worker_loop_ticks:
  "worker_loop probe n (replicate k Tick @ ws) st = worker_loop probe (n + k) ws (fold probe [n..<n + k] st)"
proof (induction k arbitrary: n st)
  case (Suc k)
  then show ?case
    by (simp add: upt_conv_Cons del: upt_Suc)
qed simp

lemma worker_runs:
  "runL4Worker u dials g a hosts (replicate k Tick @ CtxDone # ws) st =
     (if gc_Interval g \<le> 0 then Panic
      else Ok (True, fold (\<lambda>n. probe_L4 u (dials n) g a hosts) [0..<Suc k] st))
   \<and> runL7Worker u gets g a hosts (replicate k Tick @ CtxDone # ws) st =
     (if gc_Interval g \<le> 0 then Panic
      else Ok (True, fold (\<lambda>n. probe_L7 u (gets n) g a hosts) [0..<Suc k] st))"
  by (simp add: runL4Worker_def runL7Worker_def worker_loop_ticks Let_def upt_conv_Cons del: upt_Suc)

text \<open>C20: no health worker of an accepted configuration panics. If no interval setting exceeds 9223372036854 ms, the
  largest that fits a duration, then every worker that is started gets a positive interval: it probes once at
  the start and once per tick, and ends when its context does.\<close>

theorem workers_do_not_panic:
  assumes "cfg_inv cfg" and "is_order ordB" and "is_order ordR" and "normalizeAndValidate u rs ordB ordR cfg = Ok rc"
    and "hc_IntervalMS (cf_Healthcheck cfg) \<le> 9223372036854"
    and "\<forall>e \<in> set (bks_of cfg). hc_IntervalMS (bg_Healthcheck (snd e)) \<le> 9223372036854"
    and "w \<in> set (Start (health_New ordH (rc_BackendGroups rc) (rc_HostToGroup rc)))"
  shows "runL4Worker u dials (wk_group w) (wk_address w) (wk_hosts w) (replicate k Tick @ CtxDone # ws) st
      = Ok (True, fold (\<lambda>n. probe_L4 u (dials n) (wk_group w) (wk_address w) (wk_hosts w)) [0..<Suc k] st)
    \<and> runL7Worker u gets (wk_group w) (wk_address w) (wk_hosts w) (replicate k Tick @ CtxDone # ws) st
      = Ok (True, fold (\<lambda>n. probe_L7 u (gets n) (wk_group w) (wk_address w) (wk_hosts w)) [0..<Suc k] st)"
proof -
  have rc: "rc = runtime u rs ordB ordR cfg"
    using nv_Ok_iff [OF assms(1-3)] assms(4) by blast
  have "wk_group w \<in> set (rc_BackendGroups rc)"
    using assms(7) by (auto simp: Start_def health_New_def)
  then obtain e where e: "e \<in> set (bks_of cfg)" "gc_Interval (wk_group w) = durationFromMS (hc_IntervalMS (bg_Healthcheck (snd e))) (dInterval cfg)"
    using assms(1,2) by (auto simp: rc runtime_def Let_def group_config_def cfg_inv_def set_range_map)
  have "0 < dInterval cfg"
    using assms(5) wrap64_id [of "hc_IntervalMS (cf_Healthcheck cfg) * Millisecond"] by (auto simp: durationFromMS_def defaultHealthInterval_def)
  then have "0 < gc_Interval (wk_group w)"
    using e assms(6) wrap64_id [of "hc_IntervalMS (bg_Healthcheck (snd e)) * Millisecond"] by (auto simp: durationFromMS_def)
  then show ?thesis
    using worker_runs [of u dials "wk_group w" "wk_address w" "wk_hosts w" k ws st gets] by simp
qed

lemma Start_not_Nil: "g \<in> set (ck_groups c) \<Longrightarrow> gc_Addresses g \<noteq> [] \<Longrightarrow> Start c \<noteq> []"
  by (auto simp: Start_def)

lemma demo_worker:
  "\<exists>w. w \<in> set (Start (health_New rev (rc_BackendGroups (runtime ascii_tables literal_resolver rev rev demo_cfg))
      (rc_HostToGroup (runtime ascii_tables literal_resolver rev rev demo_cfg))))"
proof -
  let ?rc = "runtime ascii_tables literal_resolver rev rev demo_cfg"
  have wf: "runtime_wf ?rc"
    using runtime_wf_valid [OF demo_cfg_inv is_order_rev is_order_rev demo_cfg_valid] .
  define g where "g = hd (rc_BackendGroups ?rc)"
  have g: "g \<in> set (rc_BackendGroups ?rc)" "gc_Addresses g \<noteq> []"
    using wf by (simp_all add: g_def runtime_wf_def group_wf_def)
  have "Start (health_New rev (rc_BackendGroups ?rc) (rc_HostToGroup ?rc)) \<noteq> []"
    by (rule Start_not_Nil [of g]) (use g in \<open>simp_all add: health_New_def\<close>)
  then show ?thesis
    by (metis list.set_intros(1) neq_Nil_conv)
qed

theorem workers_do_not_panic_witness:
  "\<exists>w st'. w \<in> set (Start (health_New rev (rc_BackendGroups (runtime ascii_tables literal_resolver rev rev demo_cfg))
      (rc_HostToGroup (runtime ascii_tables literal_resolver rev rev demo_cfg))))
     \<and> runL4Worker ascii_tables (\<lambda>n. refused) (wk_group w) (wk_address w) (wk_hosts w) [Tick, CtxDone] demo_shared = Ok (True, st')"
proof -
  let ?rc = "runtime ascii_tables literal_resolver rev rev demo_cfg"
  obtain w where w: "w \<in> set (Start (health_New rev (rc_BackendGroups ?rc) (rc_HostToGroup ?rc)))"
    using demo_worker by blast
  have "hc_IntervalMS (cf_Healthcheck demo_cfg) \<le> 9223372036854"
    "\<forall>e \<in> set (bks_of demo_cfg). hc_IntervalMS (bg_Healthcheck (snd e)) \<le> 9223372036854"
    by code_simp+
  from workers_do_not_panic [OF demo_cfg_inv is_order_rev is_order_rev demo_runtime this w, of "\<lambda>n. refused" 1 "[]" demo_shared]
  show ?thesis
    using w by auto
qed

end
