(* ===== verification/Exporter.thy ===== *)
theory Exporter
  imports Metrics
begin

text \<open>
  The metrics endpoint, \<open>internal/metrics/exporter.go\<close>: what \<open>/metrics\<close> answers, and the two
  goroutines of \<open>StartHTTP\<close> as a step relation: one runs the HTTP server and reports its end on a channel, the other
  shuts the server down when the context is done. The HTTP server itself is outside; what is used of it is documented
  behaviour of \<open>net/http\<close>: \<open>ListenAndServe\<close> always returns an error, and \<open>ErrServerClosed\<close> only after a
  shutdown.
\<close>

section \<open>State\<close>

datatype server_phase = Serving | ShutDown | Ended

record exporter =
  ex_addr :: string
  ex_phase :: server_phase
  ex_errCh :: "go_error list"
  ex_chClosed :: bool
  ex_log :: "string list"

section \<open>Operations\<close>

definition serve_metrics :: "unicode \<Rightarrow> key_order \<Rightarrow> collector \<Rightarrow> (string \<times> string) list \<times> string" where
  "serve_metrics u ord c =
     ([(''Content-Type'', ''text/plain; version=0.0.4; charset=utf-8'')], RenderPrometheusText u ord c)"

definition StartHTTP :: "string \<Rightarrow> exporter" where
  "StartHTTP listenAddr =
     \<lparr>ex_addr = listenAddr, ex_phase = Serving, ex_errCh = [], ex_chClosed = False,
      ex_log = [''metrics: listening on '' @ listenAddr]\<rparr>"

text \<open>The end of the first goroutine, with the error that \<open>ListenAndServe\<close> returned.\<close>

definition serve_ended :: "go_error \<Rightarrow> exporter \<Rightarrow> exporter" where
  "serve_ended e x = x\<lparr>ex_phase := Ended, ex_chClosed := True,
     ex_errCh := ex_errCh x @ (if errors_Is e HttpErrServerClosed then [] else [errorf_w ''metrics listen failed'' e])\<rparr>"

text \<open>The second goroutine, once the context is done.\<close>

definition ctx_done :: "exporter \<Rightarrow> exporter" where
  "ctx_done x = (if ex_phase x = Serving then x\<lparr>ex_phase := ShutDown\<rparr> else x)"

text \<open>A receive from the channel: no value yet, an error, or the nil of a closed channel.\<close>

definition recv_err :: "exporter \<Rightarrow> go_error option option" where
  "recv_err x = (case ex_errCh x of e # _ \<Rightarrow> Some (Some e) | [] \<Rightarrow> if ex_chClosed x then Some None else None)"

inductive ex_step :: "exporter \<Rightarrow> exporter \<Rightarrow> bool" where
  failed: "ex_phase x = Serving \<Longrightarrow> \<not> errors_Is e HttpErrServerClosed \<Longrightarrow> ex_step x (serve_ended e x)"
| cancelled: "ex_step x (ctx_done x)"
| ended: "ex_phase x = ShutDown \<Longrightarrow> ex_step x (serve_ended e x)"

inductive ex_reachable :: "string \<Rightarrow> bool \<Rightarrow> exporter \<Rightarrow> bool" for addr where
  start: "ex_reachable addr False (StartHTTP addr)"
| run: "ex_reachable addr c x \<Longrightarrow> ex_step x y \<Longrightarrow> y \<noteq> ctx_done x \<Longrightarrow> ex_reachable addr c y"
| cancel: "ex_reachable addr c x \<Longrightarrow> ex_reachable addr True (ctx_done x)"

section \<open>What the main loop can receive\<close>

text \<open>Without a cancelled context the channel is closed only after an error was put into it.\<close>

lemma exporter_inv:
  "ex_reachable addr c x \<Longrightarrow> \<not> c \<Longrightarrow>
     (ex_phase x = Serving \<and> ex_errCh x = [] \<and> \<not> ex_chClosed x) \<or> (ex_phase x = Ended \<and> ex_errCh x \<noteq> [])"
  by (induction rule: ex_reachable.induct) (auto simp: StartHTTP_def serve_ended_def elim!: ex_step.cases)

end
