(* ===== verification/Runtime.thy ===== *)
theory Runtime
  imports Server Health Exporter
begin

text \<open>
  The process, \<open>cmd/zerosock/reload.go\<close> and \<open>main.go\<close>: building router and health checker from a
  configuration file, the reload and its policy, and the main loop over signals, reload requests and the
  ends of the two servers. What a load reads from outside (tables, resolver, YAML package, files, map
  orders) is one record \<open>world\<close>, which may differ from load to load. The health checkers that were started are kept
  in a list; cancelling one clears its flag. \<open>st_answers\<close> is the history of the answers to reload requests.
\<close>

section \<open>State\<close>

record world =
  wo_unicode :: unicode
  wo_resolver :: resolver
  wo_yaml :: yaml
  wo_disk :: disk
  wo_ordBackends :: key_order
  wo_ordRoutes :: key_order
  wo_ordRouter :: key_order
  wo_ordHosts :: key_order

record checker_run =
  cr_checker :: Checker
  cr_router :: Router
  cr_running :: bool

record 'x runtimeState =
  st_server :: "'x server"
  st_cfg :: RuntimeConfig
  st_checkerCancel :: "nat option"
  st_checkers :: "checker_run list"
  st_answers :: "go_error option list"
  st_log :: "string list"

section \<open>Building a target\<close>

definition buildReloadTarget :: "world \<Rightarrow> string \<Rightarrow> (RuntimeConfig \<times> Router \<times> Checker) outcome" where
  "buildReloadTarget w configPath =
     (case Load (wo_unicode w) (wo_resolver w) (wo_ordBackends w) (wo_ordRoutes w) (wo_yaml w) (wo_disk w) configPath of
        Err e \<Rightarrow> Err (errorf_w ''config error'' e)
      | Panic \<Rightarrow> Panic
      | Ok cfg \<Rightarrow>
          (case Router.New (wo_unicode w) (wo_ordRouter w) (rc_Routes cfg) of
             Inl e \<Rightarrow> Err (errorf_w ''router init error'' e)
           | Inr rt \<Rightarrow> Ok (cfg, rt, health_New (wo_ordHosts w) (rc_BackendGroups cfg) (rc_HostToGroup cfg))))"

definition validateConfig :: "world \<Rightarrow> string \<Rightarrow> string list \<Rightarrow> (go_error option \<times> string list) outcome" where
  "validateConfig w configPath logs =
     (case Load (wo_unicode w) (wo_resolver w) (wo_ordBackends w) (wo_ordRoutes w) (wo_yaml w) (wo_disk w) configPath of
        Err e \<Rightarrow> Ok (Some (errorf_w ''config error'' e), logs)
      | Panic \<Rightarrow> Panic
      | Ok cfg \<Rightarrow>
          (case Router.New (wo_unicode w) (wo_ordRouter w) (rc_Routes cfg) of
             Inl e \<Rightarrow> Ok (Some (errorf_w ''router init error'' e), logs)
           | Inr _ \<Rightarrow> Ok (None, logs @ [''config OK: '' @ configPath])))"

section \<open>Health checkers\<close>

text \<open>\<open>startChecker\<close> returns the function that cancels the new checker: its position.\<close>

definition startChecker :: "Checker \<Rightarrow> Router \<Rightarrow> checker_run list \<Rightarrow> nat \<times> checker_run list" where
  "startChecker c r cs = (length cs, cs @ [\<lparr>cr_checker = c, cr_router = r, cr_running = True\<rparr>])"

definition cancelChecker :: "nat option \<Rightarrow> checker_run list \<Rightarrow> checker_run list" where
  "cancelChecker cancel cs =
     (case cancel of None \<Rightarrow> cs | Some i \<Rightarrow> if i < length cs then cs[i := (cs ! i)\<lparr>cr_running := False\<rparr>] else cs)"

definition newRuntimeState ::
  "'x server \<Rightarrow> RuntimeConfig \<Rightarrow> nat \<Rightarrow> checker_run list \<Rightarrow> 'x runtimeState" where
  "newRuntimeState server cfg cancel cs =
     \<lparr>st_server = server, st_cfg = cfg, st_checkerCancel = Some cancel, st_checkers = cs,
      st_answers = [], st_log = []\<rparr>"

definition currentConfig :: "'x runtimeState \<Rightarrow> RuntimeConfig" where
  "currentConfig st = st_cfg st"

definition stopChecker :: "'x runtimeState \<Rightarrow> 'x runtimeState" where
  "stopChecker st = st\<lparr>st_checkerCancel := None, st_checkers := cancelChecker (st_checkerCancel st) (st_checkers st)\<rparr>"

section \<open>Reload\<close>

text \<open>One clause of the policy: if a setting changed, warn and keep the current value.\<close>

definition keep_current ::
  "(RuntimeConfig \<Rightarrow> 'v) \<Rightarrow> ('v \<Rightarrow> RuntimeConfig \<Rightarrow> RuntimeConfig) \<Rightarrow> string \<Rightarrow> RuntimeConfig \<Rightarrow> RuntimeConfig
     \<Rightarrow> RuntimeConfig \<times> string list \<Rightarrow> RuntimeConfig \<times> string list" where
  "keep_current get put msg cur next aw =
     (if get next \<noteq> get cur then (put (get cur) (fst aw), snd aw @ [msg]) else aw)"

definition fmt_t :: "bool \<Rightarrow> string" where
  "fmt_t b = (if b then ''true'' else ''false'')"

definition applyReloadPolicy :: "RuntimeConfig \<Rightarrow> RuntimeConfig \<Rightarrow> RuntimeConfig \<times> string list" where
  "applyReloadPolicy cur next = (
     let s1 = keep_current rc_ListenAddr (\<lambda>v. rc_ListenAddr_update (\<lambda>_. v))
           (''server.listen_addr changed ('' @ rc_ListenAddr cur @ '' -> '' @ rc_ListenAddr next
             @ ''), keeping current listener until restart'') cur next (next, []);
         s2 = keep_current rc_MetricsListenAddr (\<lambda>v. rc_MetricsListenAddr_update (\<lambda>_. v))
           (''metrics.listen_addr changed ('' @ rc_MetricsListenAddr cur @ '' -> '' @ rc_MetricsListenAddr next
             @ ''), keeping current listener until restart'') cur next s1;
         s3 = keep_current rc_MetricsEnabled (\<lambda>v. rc_MetricsEnabled_update (\<lambda>_. v))
           (''metrics.enabled changed ('' @ fmt_t (rc_MetricsEnabled cur) @ '' -> '' @ fmt_t (rc_MetricsEnabled next)
             @ ''), keeping current metrics process state until restart'') cur next s2;
         s4 = keep_current rc_MaxConnections (\<lambda>v. rc_MaxConnections_update (\<lambda>_. v))
           ''server.max_connections changed, keeping current limit until restart'' cur next s3;
         s5 = keep_current rc_MaxInflightDials (\<lambda>v. rc_MaxInflightDials_update (\<lambda>_. v))
           ''server.max_inflight_dials changed, keeping current limit until restart'' cur next s4;
         s6 = keep_current rc_DialTimeout (\<lambda>v. rc_DialTimeout_update (\<lambda>_. v))
           ''timeouts.dial_ms changed, keeping current dial timeout until restart'' cur next s5;
         s7 = keep_current rc_ReadTimeout (\<lambda>v. rc_ReadTimeout_update (\<lambda>_. v))
           ''timeouts.read_ms changed, keeping current read timeout until restart'' cur next s6;
         s8 = keep_current rc_WriteTimeout (\<lambda>v. rc_WriteTimeout_update (\<lambda>_. v))
           ''timeouts.write_ms changed, keeping current write timeout until restart'' cur next s7;
         s9 = keep_current rc_IdleTimeout (\<lambda>v. rc_IdleTimeout_update (\<lambda>_. v))
           ''timeouts.idle_ms changed, keeping current idle timeout until restart'' cur next s8
     in keep_current rc_TCPKeepAlive (\<lambda>v. rc_TCPKeepAlive_update (\<lambda>_. v))
           ''tcp.keepalive_ms changed, keeping current TCP keepalive until restart'' cur next s9)"

definition reload :: "world \<Rightarrow> string \<Rightarrow> 'x runtimeState \<Rightarrow> (go_error option \<times> 'x runtimeState) outcome" where
  "reload w configPath st =
     (case buildReloadTarget w configPath of
        Err e \<Rightarrow> Ok (Some e, st)
      | Panic \<Rightarrow> Panic
      | Ok (nextCfg, nextRouter, nextChecker) \<Rightarrow>
          let (appliedCfg, warnings) = applyReloadPolicy (st_cfg st) nextCfg;
              (nextCancel, cs) = startChecker nextChecker nextRouter (st_checkers st)
          in Ok (None, st\<lparr>st_server := server_UpdateRouter nextRouter (st_server st), st_cfg := appliedCfg,
                st_checkerCancel := Some nextCancel, st_checkers := cancelChecker (st_checkerCancel st) cs,
                st_log := st_log st @ map (\<lambda>m. ''reload: '' @ m) warnings
                  @ [''reload: config applied from '' @ configPath]\<rparr>))"

section \<open>The main loop\<close>

text \<open>What the \<open>select\<close> of \<open>run\<close> can receive; a closed channel delivers a nil error. A signal to stop carries its
  name and the result of closing the listener.\<close>

datatype run_event =
    ServeErr "go_error option"
  | MetricsErr "go_error option"
  | SIGHUP world
  | SIGTERM string "go_error option"
  | ReloadRequest world

text \<open>Where \<open>run\<close> is: still in the loop, out of the loop on a signal, or returned.\<close>

datatype 'x run_state =
    Looping "'x runtimeState"
  | ShuttingDown "'x runtimeState"
  | Exited "go_error option" "'x runtimeState"

definition logs :: "string list \<Rightarrow> 'x runtimeState \<Rightarrow> 'x runtimeState" where
  "logs ms st = st\<lparr>st_log := st_log st @ ms\<rparr>"

definition answer :: "go_error option \<Rightarrow> 'x runtimeState \<Rightarrow> 'x runtimeState" where
  "answer e st = st\<lparr>st_answers := st_answers st @ [e]\<rparr>"

text \<open>The context of \<open>run\<close> is the parent of every checker's context; it is cancelled on every return.\<close>

definition cancel_ctx :: "'x runtimeState \<Rightarrow> 'x runtimeState" where
  "cancel_ctx st = st\<lparr>st_checkers := map (\<lambda>c. c\<lparr>cr_running := False\<rparr>) (st_checkers st)\<rparr>"

definition stop_all :: "go_error option \<Rightarrow> 'x runtimeState \<Rightarrow> go_error option \<times> 'x runtimeState" where
  "stop_all cl st =
     (let (err, server) = Shutdown cl (st_server st) in (err, (stopChecker (cancel_ctx st))\<lparr>st_server := server\<rparr>))"

fun run_step :: "string \<Rightarrow> run_event \<Rightarrow> 'x runtimeState \<Rightarrow> 'x run_state outcome" where
  "run_step path (ServeErr err) st =
     Ok (case err of Some e \<Rightarrow> Exited (Some (errorf_w ''serve failed'' e)) (snd (stop_all None st)) | None \<Rightarrow> Exited None (cancel_ctx st))"
| "run_step path (MetricsErr err) st =
     Ok (case err of Some e \<Rightarrow> Exited (Some (errorf_w ''metrics serve failed'' e)) (snd (stop_all None st)) | None \<Rightarrow> Exited None (cancel_ctx st))"
| "run_step path (SIGHUP w) st =
     (case reload w path st of
        Panic \<Rightarrow> Panic | Err e \<Rightarrow> Err e
      | Ok (None, st') \<Rightarrow> Ok (Looping st')
      | Ok (Some e, st') \<Rightarrow> Ok (Looping (logs [''reload: failed: '' @ err_msg e] st')))"
| "run_step path (SIGTERM name cl) st =
     (let (err, st') = stop_all cl (logs [''shutdown: received signal '' @ name] st)
      in Ok (ShuttingDown (logs (case err of None \<Rightarrow> []
           | Some e \<Rightarrow> if errors_Is e OsErrClosed then [] else [''shutdown: close listener error: '' @ err_msg e]) st')))"
| "run_step path (ReloadRequest w) st =
     (case reload w path st of
        Panic \<Rightarrow> Panic | Err e \<Rightarrow> Err e
      | Ok (None, st') \<Rightarrow> Ok (Looping (answer None st'))
      | Ok (Some e, st') \<Rightarrow> Ok (Looping (answer (Some e) (logs [''reload: auto-discovery failed: '' @ err_msg e] st'))))"

fun run_loop :: "string \<Rightarrow> run_event list \<Rightarrow> 'x runtimeState \<Rightarrow> 'x run_state outcome" where
  "run_loop path [] st = Ok (Looping st)"
| "run_loop path (ev # evs) st =
     (case run_step path ev st of
        Ok (Looping st') \<Rightarrow> run_loop path evs st'
      | other \<Rightarrow> other)"

text \<open>The end of \<open>run\<close>: the result of \<open>Wait\<close> or a second signal, whichever comes first.\<close>

datatype wait_outcome = Waited bool | SecondSignal string

definition run_shutdown :: "wait_outcome \<Rightarrow> 'x runtimeState \<Rightarrow> 'x run_state" where
  "run_shutdown wt st = Exited None (logs
     [''shutdown: allowing active tunnels to finish for '' @ Duration_String (rc_ShutdownGrace (currentConfig st)),
      case wt of Waited True \<Rightarrow> ''shutdown: all active tunnels finished''
      | Waited False \<Rightarrow> ''shutdown: grace period elapsed with active tunnels''
      | SecondSignal sig \<Rightarrow> ''shutdown: second signal '' @ sig @ '', exiting immediately''] (cancel_ctx st))"

text \<open>The start of \<open>run\<close>: load, create the server and start the first checker. \<open>disc\<close> is the discoverer that is
  used if the configuration enables one.\<close>

definition run_init ::
  "world \<Rightarrow> string \<Rightarrow> 'x discover \<Rightarrow> 'x \<Rightarrow> 'x runtimeState outcome" where
  "run_init w path disc x =
     (case buildReloadTarget w path of
        Err e \<Rightarrow> Err e | Panic \<Rightarrow> Panic
      | Ok (cfg, rt, checker) \<Rightarrow>
          let server = server_New (rc_ListenAddr cfg) rt (rc_DialTimeout cfg) (rc_TCPKeepAlive cfg) (rc_MaxConnections cfg)
                (rc_MaxInflightDials cfg) (rc_ReadTimeout cfg) (rc_WriteTimeout cfg) (rc_IdleTimeout cfg) NewCollector
                (if rc_AutoDiscoveryEnabled cfg then Some disc else None) x;
              (cancel, cs) = startChecker checker rt []
          in Ok (newRuntimeState server cfg cancel cs))"

text \<open>The whole of \<open>run\<close> over the events it receives, and \<open>main\<close> on the values of its two flags. The logger's \<open>Fatalf\<close>
  prints and exits with an error.\<close>

definition run ::
  "world \<Rightarrow> string \<Rightarrow> 'x discover \<Rightarrow> 'x \<Rightarrow> run_event list \<Rightarrow> wait_outcome \<Rightarrow> 'x run_state outcome" where
  "run w path disc x evs wt =
     (case run_init w path disc x of
        Err e \<Rightarrow> Err e | Panic \<Rightarrow> Panic
      | Ok st \<Rightarrow>
          (case run_loop path evs st of
             Ok (ShuttingDown st') \<Rightarrow> Ok (run_shutdown wt st')
           | other \<Rightarrow> other))"

datatype process_end = ExitOk | Fatal string | Crashed | StillRunning

definition main ::
  "world \<Rightarrow> string \<Rightarrow> string \<Rightarrow> 'x discover \<Rightarrow> 'x \<Rightarrow> run_event list \<Rightarrow> wait_outcome \<Rightarrow> process_end" where
  "main w configPath checkConfigPath disc x evs wt =
     (if checkConfigPath \<noteq> [] then
        (case validateConfig w checkConfigPath [] of
           Ok (None, _) \<Rightarrow> ExitOk | Ok (Some e, _) \<Rightarrow> Fatal (err_msg e) | Err e \<Rightarrow> Fatal (err_msg e) | Panic \<Rightarrow> Crashed)
      else
        (case run w configPath disc x evs wt of
           Ok (Exited None _) \<Rightarrow> ExitOk | Ok (Exited (Some e) _) \<Rightarrow> Fatal (err_msg e)
         | Ok _ \<Rightarrow> StillRunning | Err e \<Rightarrow> Fatal (err_msg e) | Panic \<Rightarrow> Crashed))"

section \<open>The policy\<close>

definition with_process_settings :: "RuntimeConfig \<Rightarrow> RuntimeConfig \<Rightarrow> RuntimeConfig" where
  "with_process_settings cur next = next\<lparr>
     rc_ListenAddr := rc_ListenAddr cur, rc_MetricsEnabled := rc_MetricsEnabled cur,
     rc_MetricsListenAddr := rc_MetricsListenAddr cur, rc_MaxConnections := rc_MaxConnections cur,
     rc_MaxInflightDials := rc_MaxInflightDials cur, rc_DialTimeout := rc_DialTimeout cur,
     rc_ReadTimeout := rc_ReadTimeout cur, rc_WriteTimeout := rc_WriteTimeout cur,
     rc_IdleTimeout := rc_IdleTimeout cur, rc_TCPKeepAlive := rc_TCPKeepAlive cur\<rparr>"

lemma keep_current_fst:
  "fst (keep_current get put msg cur next aw) = (if get next \<noteq> get cur then put (get cur) (fst aw) else fst aw)"
  by (simp add: keep_current_def)

lemmas rc_if = if_distrib [of rc_ListenAddr] if_distrib [of rc_MetricsEnabled] if_distrib [of rc_MetricsListenAddr]
  if_distrib [of rc_AutoDiscoveryEnabled] if_distrib [of rc_MaxConnections] if_distrib [of rc_MaxInflightDials]
  if_distrib [of rc_DialTimeout] if_distrib [of rc_ReadTimeout] if_distrib [of rc_WriteTimeout]
  if_distrib [of rc_IdleTimeout] if_distrib [of rc_TCPKeepAlive] if_distrib [of rc_ShutdownGrace]
  if_distrib [of rc_Routes] if_distrib [of rc_BackendGroups] if_distrib [of rc_HostToGroup]

lemma keep_current_snd:
  "snd (keep_current get put msg cur next aw) = snd aw @ (if get next = get cur then [] else [msg])"
  by (simp add: keep_current_def)

text \<open>The settings bound to the running process, in the order of the policy: whether a reload would change each, and the
  warning it then gives.\<close>

definition changed_settings :: "RuntimeConfig \<Rightarrow> RuntimeConfig \<Rightarrow> (bool \<times> string) list" where
  "changed_settings cur next =
     [(rc_ListenAddr next \<noteq> rc_ListenAddr cur, ''server.listen_addr changed ('' @ rc_ListenAddr cur @ '' -> ''
        @ rc_ListenAddr next @ ''), keeping current listener until restart''),
      (rc_MetricsListenAddr next \<noteq> rc_MetricsListenAddr cur, ''metrics.listen_addr changed ('' @ rc_MetricsListenAddr cur @ '' -> ''
        @ rc_MetricsListenAddr next @ ''), keeping current listener until restart''),
      (rc_MetricsEnabled next \<noteq> rc_MetricsEnabled cur, ''metrics.enabled changed ('' @ fmt_t (rc_MetricsEnabled cur) @ '' -> ''
        @ fmt_t (rc_MetricsEnabled next) @ ''), keeping current metrics process state until restart''),
      (rc_MaxConnections next \<noteq> rc_MaxConnections cur, ''server.max_connections changed, keeping current limit until restart''),
      (rc_MaxInflightDials next \<noteq> rc_MaxInflightDials cur, ''server.max_inflight_dials changed, keeping current limit until restart''),
      (rc_DialTimeout next \<noteq> rc_DialTimeout cur, ''timeouts.dial_ms changed, keeping current dial timeout until restart''),
      (rc_ReadTimeout next \<noteq> rc_ReadTimeout cur, ''timeouts.read_ms changed, keeping current read timeout until restart''),
      (rc_WriteTimeout next \<noteq> rc_WriteTimeout cur, ''timeouts.write_ms changed, keeping current write timeout until restart''),
      (rc_IdleTimeout next \<noteq> rc_IdleTimeout cur, ''timeouts.idle_ms changed, keeping current idle timeout until restart''),
      (rc_TCPKeepAlive next \<noteq> rc_TCPKeepAlive cur, ''tcp.keepalive_ms changed, keeping current TCP keepalive until restart'')]"

definition due_warnings :: "RuntimeConfig \<Rightarrow> RuntimeConfig \<Rightarrow> string list" where
  "due_warnings cur next = map snd (filter fst (changed_settings cur next))"

lemma due_warnings_Cons: "map snd (filter fst ((b, m) # cs)) = (if \<not> b then [] else [m]) @ map snd (filter fst cs)"
  by simp

lemma policy_warnings: "snd (applyReloadPolicy cur next) = due_warnings cur next"
  unfolding applyReloadPolicy_def Let_def keep_current_snd due_warnings_def changed_settings_def due_warnings_Cons
  by (simp only: snd_conv append_assoc append_Nil append_Nil2 filter.simps list.map not_not)

lemma policy_config: "fst (applyReloadPolicy cur next) = with_process_settings cur next"
  unfolding applyReloadPolicy_def Let_def keep_current_fst with_process_settings_def
  by (rule RuntimeConfig.equality) (simp_all add: rc_if cong: if_weak_cong)

section \<open>One health checker\<close>

definition running :: "checker_run list \<Rightarrow> nat" where
  "running cs = length (filter cr_running cs)"

text \<open>While the process loops exactly one checker runs, the one the state can cancel.\<close>

definition one_checker :: "'x runtimeState \<Rightarrow> bool" where
  "one_checker st \<longleftrightarrow> running (st_checkers st) = 1 \<and>
     (case st_checkerCancel st of None \<Rightarrow> False | Some i \<Rightarrow> i < length (st_checkers st) \<and> cr_running (st_checkers st ! i))"

lemma reload_one_checker:
  assumes "reload w path st = Ok (r, st')" and "one_checker st"
  shows "one_checker st'"
proof (cases r)
  case (Some e)
  then show ?thesis
    using assms by (auto simp: reload_def Let_def split: outcome.splits prod.splits)
next
  case None
  obtain i where i: "st_checkerCancel st = Some i" "i < length (st_checkers st)" "cr_running (st_checkers st ! i)"
    and one: "running (st_checkers st) = 1"
    using assms(2) by (auto simp: one_checker_def split: option.splits)
  obtain ck rt where st': "st_checkers st' = (st_checkers st @ [\<lparr>cr_checker = ck, cr_router = rt, cr_running = True\<rparr>])
      [i := (st_checkers st ! i)\<lparr>cr_running := False\<rparr>]" and c: "st_checkerCancel st' = Some (length (st_checkers st))"
    using assms(1) None i(1,2)
    by (auto simp: reload_def Let_def startChecker_def cancelChecker_def nth_append split: outcome.splits prod.splits)
  have "running (st_checkers st') = 1"
    using length_filter_update [OF i(2), of cr_running "(st_checkers st ! i)\<lparr>cr_running := False\<rparr>"] one i(2,3)
    by (simp add: st' running_def list_update_append)
  then show ?thesis
    using i(2) by (simp add: one_checker_def c st' nth_list_update nth_append)
qed

lemma running_cancelled [simp]: "running (map (\<lambda>c. c\<lparr>cr_running := False\<rparr>) cs) = 0"
  by (simp add: running_def filter_empty_conv)

lemma running_cancelChecker: "running cs = 0 \<Longrightarrow> running (cancelChecker i cs) = 0"
  by (cases i) (auto simp: cancelChecker_def running_def filter_empty_conv dest!: set_update_subset_insert [THEN subsetD])

lemma running_stop_all [simp]: "running (st_checkers (snd (stop_all cl st))) = 0"
  by (simp add: stop_all_def stopChecker_def cancel_ctx_def running_cancelChecker split_beta)

lemma run_step_checkers:
  assumes "run_step path ev st = Ok rs" and "one_checker st"
  shows "case rs of Looping st' \<Rightarrow> one_checker st' | ShuttingDown st' \<Rightarrow> running (st_checkers st') = 0
    | Exited e st' \<Rightarrow> running (st_checkers st') = 0"
proof -
  have l: "one_checker (logs ms st') = one_checker st'" "one_checker (answer e st') = one_checker st'"
    "st_checkers (logs ms st') = st_checkers st'" for ms e and st' :: "'a runtimeState"
    by (simp_all add: logs_def answer_def one_checker_def split: option.split)
  show ?thesis
    using assms
    by (cases ev) (auto simp: l cancel_ctx_def split_beta split: outcome.splits prod.splits option.splits
        dest: reload_one_checker)
qed

section \<open>Properties\<close>

text \<open>C27: what a successful reload does. The router of the server is replaced and nothing else of the server changes, so its
  limits, timeouts and discoverer stay those it was started with. The recorded configuration is the new one, except that the ten
  settings of the policy keep their current values; the switch of auto-discovery is not among them, it is recorded as the file has
  it although the server keeps its discoverer. The log gets, in order, exactly the warnings of those of the ten settings that would have
  changed, then one line that the file was applied.\<close>

theorem reload_policy:
  assumes "buildReloadTarget w path = Ok (next, rt, ck)"
  shows "\<exists>st'. reload w path st = Ok (None, st')
    \<and> st_server st' = server_UpdateRouter rt (st_server st)
    \<and> st_cfg st' = with_process_settings (st_cfg st) next
    \<and> rc_AutoDiscoveryEnabled (st_cfg st') = rc_AutoDiscoveryEnabled next
    \<and> st_log st' = st_log st @ map (\<lambda>m. ''reload: '' @ m) (due_warnings (st_cfg st) next)
        @ [''reload: config applied from '' @ path]"
  using assms policy_config [of "st_cfg st" "next"] policy_warnings [of "st_cfg st" "next"]
  by (simp add: reload_def Let_def split_beta with_process_settings_def)

text \<open>The part of the process a failed reload may touch: log and answers.\<close>

definition noted :: "string list \<Rightarrow> go_error option list \<Rightarrow> 'x runtimeState \<Rightarrow> 'x runtimeState" where
  "noted ms as st = st\<lparr>st_log := st_log st @ ms, st_answers := st_answers st @ as\<rparr>"

lemma noted_noted: "noted ms' as' (noted ms as st) = noted (ms @ ms') (as @ as') st"
  by (simp add: noted_def)

fun is_request :: "run_event \<Rightarrow> bool" where
  "is_request (ReloadRequest w) = True" | "is_request _ = False"

definition failing_reload :: "string \<Rightarrow> run_event \<Rightarrow> bool" where
  "failing_reload path ev \<longleftrightarrow> (\<exists>w e. (ev = SIGHUP w \<or> ev = ReloadRequest w) \<and> buildReloadTarget w path = Err e)"

lemma failing_reload_step:
  assumes "failing_reload path ev"
  shows "\<exists>m as. run_step path ev st = Ok (Looping (noted [m] as st)) \<and> None \<notin> set as \<and> length as = of_bool (is_request ev)"
proof -
  obtain w e where e: "ev = SIGHUP w \<or> ev = ReloadRequest w" "buildReloadTarget w path = Err e"
    using assms by (auto simp: failing_reload_def)
  then show ?thesis
    by (intro exI [of _ "(if is_request ev then ''reload: auto-discovery failed: '' else ''reload: failed: '') @ err_msg e"]
          exI [of _ "if is_request ev then [Some e] else []"])
      (auto simp: reload_def noted_def logs_def answer_def)
qed

text \<open>C28: an invalid configuration cannot hurt a running process: however many reloads fail, the server,
  its router and sessions, the configuration and the health checker stay as they were, the
  process keeps running, and every reload request is answered with an error.\<close>

theorem invalid_reloads_harmless:
  assumes "list_all (failing_reload path) evs"
  shows "\<exists>ms as. run_loop path evs st = Ok (Looping (noted ms as st)) \<and> None \<notin> set as
    \<and> length as = length (filter is_request evs)"
  using assms
proof (induction evs arbitrary: st)
  case Nil
  then show ?case
    by (intro exI [of _ "[]"]) (simp add: noted_def)
next
  case (Cons ev evs)
  obtain m as where m: "run_step path ev st = Ok (Looping (noted [m] as st))" "None \<notin> set as"
    "length as = of_bool (is_request ev)"
    using failing_reload_step [of path ev st] Cons.prems by auto
  moreover obtain ms as' where "run_loop path evs (noted [m] as st) = Ok (Looping (noted ms as' (noted [m] as st)))"
    "None \<notin> set as'" "length as' = length (filter is_request evs)"
    using Cons.IH [of "noted [m] as st"] Cons.prems by auto
  ultimately show ?case
    by (intro exI [of _ "[m] @ ms"] exI [of _ "as @ as'"]) (simp add: noted_noted)
qed

lemma loop_checkers:
  assumes "one_checker st" and "run_loop path evs st = Ok rs"
  shows "case rs of Looping st' \<Rightarrow> one_checker st' | ShuttingDown st' \<Rightarrow> running (st_checkers st') = 0
    | Exited e st' \<Rightarrow> running (st_checkers st') = 0"
  using assms
proof (induction evs arbitrary: st)
  case (Cons ev evs)
  show ?case
  proof (cases "run_step path ev st")
    case (Ok rs1)
    then show ?thesis
      using run_step_checkers [OF Ok Cons.prems(1)] Cons.IH Cons.prems(2) by (auto split: run_state.splits)
  qed (use Cons.prems(2) in auto)
qed auto

lemma run_init_one_checker: "run_init w path disc x = Ok st \<Longrightarrow> one_checker st"
  by (auto simp: run_init_def startChecker_def newRuntimeState_def one_checker_def running_def Let_def
      split: outcome.splits prod.splits)

text \<open>C29: from the start of the process on there is exactly one health checker while it runs, through any
  number of reloads, and none once it has left the loop.\<close>

theorem one_checker_runs:
  assumes "run_init w path disc x = Ok st" and "run_loop path evs st = Ok rs"
  shows "case rs of Looping st' \<Rightarrow> running (st_checkers st') = 1 | ShuttingDown st' \<Rightarrow> running (st_checkers st') = 0
    | Exited e st' \<Rightarrow> running (st_checkers st') = 0"
  using loop_checkers [OF run_init_one_checker [OF assms(1)] assms(2)]
  by (auto simp: one_checker_def split: run_state.splits)

lemma reload_succeeds:
  "buildReloadTarget w path = Ok (cfg, rt, ck) \<Longrightarrow>
     \<exists>st'. reload w path st = Ok (None, st') \<and> st_server st' = server_UpdateRouter rt (st_server st)"
  by (simp add: reload_def Let_def split_beta)

text \<open>A world in which the demonstration configuration is loaded, and one without the file.\<close>

definition demo_world :: world where
  "demo_world = \<lparr>wo_unicode = ascii_tables, wo_resolver = literal_resolver,
     wo_yaml = \<lparr>yaml_Unmarshal = (\<lambda>_. Inr demo_cfg), yaml_Marshal = (\<lambda>_. Inr ''cfg'')\<rparr>,
     wo_disk = \<lparr>files = (\<lambda>_. Inr ''cfg''), write_fails = (\<lambda>_. None)\<rparr>,
     wo_ordBackends = rev, wo_ordRoutes = rev, wo_ordRouter = rev, wo_ordHosts = rev\<rparr>"

definition broken_world :: world where
  "broken_world = demo_world\<lparr>wo_disk := \<lparr>files = (\<lambda>_. Inl (errors_New ''no such file or directory'')), write_fails = (\<lambda>_. None)\<rparr>\<rparr>"

lemma broken_build: "\<exists>e. buildReloadTarget broken_world path = Err e"
  by (simp add: buildReloadTarget_def Load_def broken_world_def)

abbreviation "demo_rc \<equiv> runtime ascii_tables literal_resolver rev rev demo_cfg"

lemma demo_routes_valid: "\<exists>rt. Router.New ascii_tables rev (rc_Routes demo_rc) = Inr rt"
proof -
  have wf: "runtime_wf demo_rc"
    using runtime_wf_valid [OF demo_cfg_inv is_order_rev is_order_rev demo_cfg_valid] .
  have n: "normalizeHost ascii_tables ''api.internal'' = ''api.internal''"
    "normalizeHost ascii_tables ''api.example.com'' = ''api.example.com''"
    by code_simp+
  have r: "range_map rev (rts_of demo_cfg) = [(''api.example.com'', '' pool''), (''API.internal'', ''pool'')]"
    by code_simp
  have t: "route_targets literal_resolver (bks_of demo_cfg) (''api.example.com'', '' pool'') \<noteq> []"
    "route_targets literal_resolver (bks_of demo_cfg) (''API.internal'', ''pool'') \<noteq> []"
    by code_simp+
  have "route_ok ascii_tables e" if "e \<in> set (rc_Routes demo_rc)" for e
  proof -
    have "gm_get (rc_Routes demo_rc) (fst e) = Some (snd e)"
      using gm_get_iff [of "rc_Routes demo_rc" "fst e" "snd e"] wf that by (simp add: runtime_wf_def)
    then show ?thesis
      using n t by (auto simp: runtime_def Let_def put_routes_get r demo_cfg_hosts route_ok_def split: if_splits)
  qed
  moreover have "rc_Routes demo_rc \<noteq> []" and "gm_inv (rc_Routes demo_rc)"
    using wf by (simp_all add: runtime_wf_def)
  ultimately have "is_ok (Router.New ascii_tables rev (rc_Routes demo_rc))"
    using new_pools_ok_iff [of ascii_tables "range_map rev (rc_Routes demo_rc)" gm_empty gm_empty]
    by (simp add: Router.New_def set_range_map)
  then show ?thesis
    by (simp add: is_ok_iff)
qed

lemma demo_build: "\<exists>rt ck. buildReloadTarget demo_world path = Ok (demo_rc, rt, ck)"
  using demo_routes_valid demo_runtime by (auto simp: buildReloadTarget_def Load_def demo_world_def)

lemma demo_init: "\<exists>st. run_init demo_world path disc x = Ok st"
  using demo_build [of path] by (auto simp: run_init_def Let_def split: prod.split)

text \<open>A process that runs with another read timeout than its file has now.\<close>

theorem reload_policy_witness:
  "\<exists>st'. reload demo_world ''config.yaml''
        (newRuntimeState demo_listening (demo_rc\<lparr>rc_ReadTimeout := rc_ReadTimeout demo_rc + 1\<rparr>) 0 []) = Ok (None, st')
     \<and> rc_ReadTimeout (st_cfg st') = rc_ReadTimeout demo_rc + 1
     \<and> st_log st' = [''reload: '' @ ''timeouts.read_ms changed, keeping current read timeout until restart'',
         ''reload: config applied from '' @ ''config.yaml'']"
proof -
  obtain rt ck where b: "buildReloadTarget demo_world ''config.yaml'' = Ok (demo_rc, rt, ck)"
    using demo_build by blast
  let ?cur = "demo_rc\<lparr>rc_ReadTimeout := rc_ReadTimeout demo_rc + 1\<rparr>"
  have "due_warnings ?cur demo_rc = [''timeouts.read_ms changed, keeping current read timeout until restart'']"
    by (simp add: due_warnings_def changed_settings_def)
  then show ?thesis
    using reload_policy [OF b, of "newRuntimeState demo_listening ?cur 0 []"]
    by (auto simp: newRuntimeState_def with_process_settings_def)
qed

theorem invalid_reloads_harmless_witness:
  "\<exists>st ms a. run_init demo_world ''config.yaml'' (\<lambda>h p rx. (Inr False, rx)) () = Ok st
     \<and> run_loop ''config.yaml'' [SIGHUP broken_world, ReloadRequest broken_world] st = Ok (Looping (noted ms [Some a] st))"
proof -
  obtain st where st: "run_init demo_world ''config.yaml'' (\<lambda>h p rx. (Inr False, rx)) () = Ok st"
    using demo_init [of "''config.yaml''" "\<lambda>h p rx. (Inr False, rx)" "()"] by auto
  have f: "list_all (failing_reload ''config.yaml'') [SIGHUP broken_world, ReloadRequest broken_world]"
    using broken_build [of "''config.yaml''"] by (auto simp: failing_reload_def)
  obtain ms as where "run_loop ''config.yaml'' [SIGHUP broken_world, ReloadRequest broken_world] st = Ok (Looping (noted ms as st))"
    and as: "None \<notin> set as" "length as = 1"
    using invalid_reloads_harmless [OF f, of st] by auto
  moreover obtain a where "as = [Some a]"
    using as by (cases "hd as") (auto simp: length_Suc_conv)
  ultimately show ?thesis
    using st by blast
qed

theorem one_checker_runs_witness:
  "\<exists>st st'. run_init demo_world ''config.yaml'' (\<lambda>h p rx. (Inr False, rx)) () = Ok st
     \<and> run_loop ''config.yaml'' [SIGHUP broken_world] st = Ok (Looping st') \<and> running (st_checkers st') = 1"
proof -
  obtain st where st: "run_init demo_world ''config.yaml'' (\<lambda>h p rx. (Inr False, rx)) () = Ok st"
    using demo_init [of "''config.yaml''" "\<lambda>h p rx. (Inr False, rx)" "()"] by auto
  obtain st' where l: "run_loop ''config.yaml'' [SIGHUP broken_world] st = Ok (Looping st')"
    using broken_build [of "''config.yaml''"] by (auto simp: reload_def)
  show ?thesis
    using one_checker_runs [OF st l] st l by auto
qed

text \<open>Switching auto-discovery on or off in the file is neither applied by a reload nor reported: the
  server keeps the discoverer (or the lack of one) it started with, while the applied configuration shows the
  new value and there is no warning.\<close>

theorem auto_discovery_reload_ignored:
  assumes "reload w path st = Ok (None, st')"
  shows "sv_discoverer (st_server st') = sv_discoverer (st_server st)
    \<and> (\<forall>cur v. snd (applyReloadPolicy cur (cur\<lparr>rc_AutoDiscoveryEnabled := v\<rparr>)) = []
         \<and> rc_AutoDiscoveryEnabled (fst (applyReloadPolicy cur (cur\<lparr>rc_AutoDiscoveryEnabled := v\<rparr>))) = v)"
proof -
  have "snd (applyReloadPolicy cur (cur\<lparr>rc_AutoDiscoveryEnabled := v\<rparr>)) = []" for cur v
    by (simp add: policy_warnings due_warnings_def changed_settings_def)
  then show ?thesis
    using assms
    by (auto simp: policy_config with_process_settings_def reload_def Let_def server_UpdateRouter_def
        split: outcome.splits prod.splits)
qed

theorem auto_discovery_reload_ignored_witness:
  "\<exists>st st'. run_init demo_world ''config.yaml'' (\<lambda>h p rx. (Inr False, rx)) () = Ok st
     \<and> reload demo_world ''config.yaml'' st = Ok (None, st') \<and> sv_discoverer (st_server st') = sv_discoverer (st_server st)"
proof -
  obtain st where st: "run_init demo_world ''config.yaml'' (\<lambda>h p rx. (Inr False, rx)) () = Ok st"
    using demo_init [of "''config.yaml''" "\<lambda>h p rx. (Inr False, rx)" "()"] by auto
  obtain st' where r: "reload demo_world ''config.yaml'' st = Ok (None, st')"
    using demo_build [of "''config.yaml''"] reload_succeeds by blast
  show ?thesis
    using auto_discovery_reload_ignored [OF r] st r by blast
qed

text \<open>C30: the metrics endpoint does not fail silently. As long as the context has not been cancelled, the only thing the
  main loop can receive from it is an error; the process then stops its health checker, closes the listener and
  exits with that error.\<close>

theorem metrics_failure_stops_process:
  assumes "ex_reachable addr False x" and "recv_err x = Some v"
  shows "\<exists>e st'. v = Some e \<and> run_step path (MetricsErr v) st = Ok (Exited (Some (errorf_w ''metrics serve failed'' e)) st')
    \<and> running (st_checkers st') = 0 \<and> sv_listener (st_server st') \<noteq> Some True"
proof -
  obtain e where "v = Some e"
    using exporter_inv [OF assms(1)] assms(2) by (auto simp: recv_err_def split: list.splits)
  moreover have "sv_listener (st_server (snd (stop_all None st))) \<noteq> Some True"
    by (auto simp: stop_all_def Shutdown_def split: option.split prod.split)
  ultimately show ?thesis
    by simp
qed

theorem metrics_failure_stops_process_witness:
  "\<exists>e st'. run_step ''config.yaml'' (MetricsErr (Some (errorf_w ''metrics listen failed'' (errors_New ''address in use''))))
      (newRuntimeState demo_listening demo_rc 0 []) = Ok (Exited (Some e) st') \<and> running (st_checkers st') = 0"
proof -
  let ?e = "errors_New ''address in use''"
  let ?x = "serve_ended ?e (StartHTTP ''127.0.0.1:9090'')"
  have n: "\<not> errors_Is ?e HttpErrServerClosed"
    by (simp add: errors_New_def errors_Is_def)
  have "ex_step (StartHTTP ''127.0.0.1:9090'') ?x"
    using n by (intro ex_step.failed) (simp_all add: StartHTTP_def)
  then have r: "ex_reachable ''127.0.0.1:9090'' False ?x"
    by (rule ex_reachable.run [OF ex_reachable.start]) (simp add: serve_ended_def ctx_done_def StartHTTP_def)
  have "recv_err ?x = Some (Some (errorf_w ''metrics listen failed'' ?e))"
    using n by (simp add: recv_err_def serve_ended_def StartHTTP_def)
  from metrics_failure_stops_process [OF r this, of "''config.yaml''" "newRuntimeState demo_listening demo_rc 0 []"]
  show ?thesis
    by blast
qed

text \<open>C36: the validation mode tells the truth. \<open>-c\<close> on a file ends without an error exactly if the process, started on the
  same file under the same circumstances, comes up; if it does not, it reports the very error the start would
  end with.\<close>

theorem check_mode_predicts_start:
  assumes "path \<noteq> []"
  shows "(main w other path disc x evs wt = ExitOk \<longleftrightarrow> (\<exists>st. run_init w path disc x = Ok st))
    \<and> (\<forall>msg. main w other path disc x evs wt = Fatal msg \<longleftrightarrow> (\<exists>e. run_init w path disc x = Err e \<and> err_msg e = msg))
    \<and> (\<forall>e. run_init w path disc x = Err e \<longrightarrow> main w path [] disc x evs wt = Fatal (err_msg e))"
  using assms
  by (auto simp: main_def run_def validateConfig_def run_init_def buildReloadTarget_def Let_def
      split: outcome.splits sum.splits prod.splits)

theorem check_mode_predicts_start_witness:
  "main demo_world [] ''config.yaml'' (\<lambda>h p rx. (Inr False, rx)) () [] (Waited True) = ExitOk"
  using check_mode_predicts_start [of "''config.yaml''" demo_world "[]" "\<lambda>h p rx. (Inr False, rx)" "()" "[]" "Waited True"]
    demo_init [of "''config.yaml''" "\<lambda>h p rx. (Inr False, rx)" "()"] by auto

end
