(* ===== verification/Discovery.thy ===== *)
theory Discovery
  imports Runtime
begin

text \<open>
  Auto-discovery, \<open>cmd/zerosock/discovery.go\<close>: an unknown host is resolved, added to the configuration
  file, and the process is asked to reload. The set \<open>discovering\<close> keeps two sessions from
  discovering the same target at once. Name resolution (\<open>net.LookupHost\<close>) and the reload, which
  \<open>newDiscoverer\<close> gets as a function, are arguments; \<open>reload_router\<close> is the reload of the process as the
  session sees it, through the router it leaves.
\<close>

section \<open>State\<close>

record 'r discoverer =
  di_configPath :: string
  di_discovering :: "string list"
  di_disk :: disk
  di_log :: "string list"
  di_rest :: 'r

definition newDiscoverer :: "string \<Rightarrow> disk \<Rightarrow> 'r \<Rightarrow> 'r discoverer" where
  "newDiscoverer configPath d r =
     \<lparr>di_configPath = configPath, di_discovering = [], di_disk = d, di_log = [], di_rest = r\<rparr>"

section \<open>Operations\<close>

definition host_port :: "string \<Rightarrow> 16 word \<Rightarrow> string" where
  "host_port host port = host @ '':'' @ dec (unat port)"

fun v4_addrs :: "16 word \<Rightarrow> string list \<Rightarrow> string list" where
  "v4_addrs port [] = []"
| "v4_addrs port (ip # ips) =
     (case ParseIP ip of
        None \<Rightarrow> v4_addrs port ips
      | Some parsed \<Rightarrow>
          if To4 parsed = None then v4_addrs port ips else host_port (IP_String parsed) port # v4_addrs port ips)"

definition resolve :: "unicode \<Rightarrow> (string \<Rightarrow> string list result) \<Rightarrow> string \<Rightarrow> 16 word \<Rightarrow> string list result" where
  "resolve u lookup host0 port =
     (let host = TrimSpace host0
      in if host = [] then Inl (errors_New ''empty host'')
         else case (case ParseIP host of None \<Rightarrow> None | Some ip \<Rightarrow> if To4 ip = None then None else Some ip) of
                Some ip \<Rightarrow> Inr [host_port (IP_String ip) port]
              | None \<Rightarrow>
                  (case lookup host of
                     Inl e \<Rightarrow> Inl (errorf_w (''resolve '' @ Quote (uc_print u) host) e)
                   | Inr ips \<Rightarrow> Inr (v4_addrs port ips)))"

definition route_host :: "string \<Rightarrow> 16 word \<Rightarrow> string" where
  "route_host host port =
     (case ParseIP (TrimSpace host) of None \<Rightarrow> host | Some ip \<Rightarrow> host_port (IP_String ip) port)"

text \<open>The work of \<open>Discover\<close> between taking and giving back the key.\<close>

definition discover_work ::
  "unicode \<Rightarrow> yaml \<Rightarrow> (string \<Rightarrow> string list result) \<Rightarrow> (disk \<Rightarrow> 'r \<Rightarrow> unit result \<times> 'r) \<Rightarrow> string \<Rightarrow> 16 word
     \<Rightarrow> 'r discoverer \<Rightarrow> bool result \<times> 'r discoverer" where
  "discover_work u y lookup reloadFn host port d =
     (case resolve u lookup host port of
        Inl e \<Rightarrow> (Inl e, d)
      | Inr addresses \<Rightarrow>
          if addresses = [] then (Inl (errors_New (''no addresses for '' @ host)), d)
          else (case LoadRaw y (di_disk d) (di_configPath d) of
             Inl e \<Rightarrow> (Inl (errorf_w ''load config'' e), d)
           | Inr cfg \<Rightarrow>
               (case AddAutoDiscoveredRoute u cfg (route_host host port) addresses of
                  (Inl e, _) \<Rightarrow> (Inl e, d)
                | (Inr False, _) \<Rightarrow> (Inr False, d)
                | (Inr True, cfg') \<Rightarrow>
                    (case Save y (di_disk d) (di_configPath d) cfg' of
                       (Inl e, dk) \<Rightarrow> (Inl (errorf_w ''save config'' e), d\<lparr>di_disk := dk\<rparr>)
                     | (Inr _, dk) \<Rightarrow>
                         (case reloadFn dk (di_rest d) of
                            (Inl e, r) \<Rightarrow> (Inl (errorf_w ''reload after discovery'' e), d\<lparr>di_disk := dk, di_rest := r\<rparr>)
                          | (Inr _, r) \<Rightarrow> (Inr True, d\<lparr>di_disk := dk, di_rest := r,
                              di_log := di_log d @ [''auto-discovery: added '' @ Quote (uc_print u) (route_host host port)
                                @ '' -> '' @ dec (length addresses) @ '' addresses'']\<rparr>))))))"

definition Discover ::
  "unicode \<Rightarrow> yaml \<Rightarrow> (string \<Rightarrow> string list result) \<Rightarrow> (disk \<Rightarrow> 'r \<Rightarrow> unit result \<times> 'r) \<Rightarrow> string \<Rightarrow> 16 word
     \<Rightarrow> 'r discoverer \<Rightarrow> bool result \<times> 'r discoverer" where
  "Discover u y lookup reloadFn host port d =
     (let key = host_port host port
      in if key \<in> set (di_discovering d) then (Inr False, d)
         else let (res, d') = discover_work u y lookup reloadFn host port (d\<lparr>di_discovering := key # di_discovering d\<rparr>)
              in (res, d'\<lparr>di_discovering := removeAll key (di_discovering d')\<rparr>))"

section \<open>The reload a discoverer asks for\<close>

text \<open>The main loop answers a reload request with \<open>reload\<close>; a session sees the router it leaves. A load
  that panics ends the process; it is reported as an error here, and with a consistent resolver it cannot
  happen.\<close>

definition reload_router :: "world \<Rightarrow> string \<Rightarrow> disk \<Rightarrow> Router \<Rightarrow> unit result \<times> Router" where
  "reload_router w path dk r =
     (case buildReloadTarget (w\<lparr>wo_disk := dk\<rparr>) path of
        Ok (cfg, rt, ck) \<Rightarrow> (Inr (), rt)
      | Err e \<Rightarrow> (Inl e, r)
      | Panic \<Rightarrow> (Inl (errors_New ''panic''), r))"

text \<open>It is the reload of the process, seen through its answer and the router of the server.\<close>

lemma reload_router_reload:
  assumes "reload (w\<lparr>wo_disk := dk\<rparr>) path st = Ok (res, st')"
  shows "reload_router w path dk (rd_router (sv_dialer (st_server st)))
    = (case res of None \<Rightarrow> Inr () | Some e \<Rightarrow> Inl e, rd_router (sv_dialer (st_server st')))"
  using assms by (auto simp: reload_def reload_router_def server_UpdateRouter_def UpdateRouter_def Let_def
      split: outcome.splits prod.splits)

text \<open>The discoverer in the form in which a session calls it: the state besides the router is the discoverer.\<close>

definition session_discover ::
  "world \<Rightarrow> (string \<Rightarrow> string list result) \<Rightarrow> (unit discoverer) discover" where
  "session_discover w lookup host port rx =
     (let (res, d) = Discover (wo_unicode w) (wo_yaml w) lookup (reload_router w (di_configPath (snd rx))) host port
            \<lparr>di_configPath = di_configPath (snd rx), di_discovering = di_discovering (snd rx), di_disk = di_disk (snd rx),
             di_log = di_log (snd rx), di_rest = fst rx\<rparr>
      in (res, di_rest d, \<lparr>di_configPath = di_configPath d, di_discovering = di_discovering d, di_disk = di_disk d,
             di_log = di_log d, di_rest = ()\<rparr>))"

section \<open>Addresses as host names\<close>

lemma config_normalizeHost_eq: "config_normalizeHost u h = normalizeHost u h"
  by (simp add: config_normalizeHost_def normalizeHost_def)

lemma socks_normalizeHost_eq: "socks_normalizeHost u h = normalizeHost u h"
  by (simp add: socks_normalizeHost_def normalizeHost_def)

lemma digit_clean: "is_digit c \<Longrightarrow> graphic c \<and> ord_byte c < 128 \<and> \<not> (65 \<le> ord_byte c \<and> ord_byte c \<le> 90)"
  by (auto simp: is_digit_def graphic_def)

lemma sep_clean: "graphic CHR ''.'' \<and> graphic CHR '':'' \<and> no_upper ''.:''"
  by code_simp

lemma ip4_char_clean:
  "length q = 4 \<Longrightarrow> c \<in> set (ip4_string q) \<Longrightarrow> graphic c \<and> no_upper [c]"
  using ip4_string_chars [of q c] digit_clean [of c] sep_clean by (auto simp: no_upper_def)

lemma dec_char_clean: "c \<in> set (dec n) \<Longrightarrow> graphic c \<and> no_upper [c]"
  using dec_digits [of n] digit_clean [of c] by (auto simp: no_upper_def)

lemma clean_chars: "(\<And>c. c \<in> set s \<Longrightarrow> graphic c \<and> no_upper [c]) \<Longrightarrow> no_upper s \<and> (\<forall>c \<in> set s. graphic c)"
  by (auto simp: no_upper_def)

lemma ip4_clean: "length q = 4 \<Longrightarrow> no_upper (ip4_string q) \<and> (\<forall>c \<in> set (ip4_string q). graphic c)"
  by (rule clean_chars) (rule ip4_char_clean)

lemma host_port_chars:
  assumes "length q = 4" and "c \<in> set (host_port (ip4_string q) p)"
  shows "graphic c \<and> no_upper [c]"
  using assms ip4_char_clean dec_char_clean sep_clean by (auto simp: host_port_def no_upper_def)

lemma host_port_clean:
  assumes "length q = 4"
  shows "clean_host (host_port (ip4_string q) p)"
proof -
  have "is_digit (last (dec (unat p)))"
    using dec_digits dec_not_Nil last_in_set by blast
  then have "last (host_port (ip4_string q) p) \<noteq> CHR ''.''"
    by (auto simp: host_port_def is_digit_def ord_byte_def)
  then have "\<not> suffix ''.'' (host_port (ip4_string q) p)"
    by (auto simp: suffix_def)
  then show ?thesis
    using clean_chars [of "host_port (ip4_string q) p"] host_port_chars [OF assms] by (auto simp: clean_host_def)
qed

lemma TrimSpace_ip4: "length q = 4 \<Longrightarrow> TrimSpace (ip4_string q) = ip4_string q"
  using ip4_clean TrimSpace_graphic by blast

lemma resolve_ip4:
  "length q = 4 \<Longrightarrow> resolve u lookup (ip4_string q) p = Inr [host_port (ip4_string q) p]"
  by (simp add: resolve_def TrimSpace_ip4 ip4_string_not_Nil ParseIP_ip4_string To4_mapped IP_String_mapped Let_def)

lemma route_host_ip4: "length q = 4 \<Longrightarrow> route_host (ip4_string q) p = host_port (ip4_string q) p"
  by (simp add: route_host_def TrimSpace_ip4 ParseIP_ip4_string IP_String_mapped)

section \<open>Routes of a configuration and pools of the router\<close>

text \<open>The pool that the router built from a configuration has for a key comes from a route of the file.\<close>

lemma runtime_route_source:
  assumes "cfg_inv cfg" and "is_order ordR" and "gm_get (rc_Routes (runtime u rs ordB ordR cfg)) k = Some as"
  shows "\<exists>e \<in> set (rts_of cfg). config_normalizeHost u (fst e) = k \<and> as = route_targets rs (bks_of cfg) e"
proof -
  obtain e where f: "find (\<lambda>e. config_normalizeHost u (fst e) = k) (rev (range_map ordR (rts_of cfg))) = Some e"
    and as: "as = route_targets rs (bks_of cfg) e"
    using assms(3) by (auto simp: runtime_def Let_def put_routes_get)
  then show ?thesis
    using find_SomeD [OF f] assms(1,2) by (auto simp: cfg_inv_def set_range_map)
qed

lemma runtime_routes_inv: "gm_inv (rc_Routes (runtime u rs ordB ordR cfg))"
  using put_routes_inv by (auto simp: runtime_def Let_def)

lemma router_key_source:
  assumes "cfg_inv cfg" and "is_order ordR" and "is_order ordN"
    and "Router.New u ordN (rc_Routes (runtime u rs ordB ordR cfg)) = Inr r" and "gm_get (pools r) k \<noteq> None"
  shows "\<exists>e \<in> set (rts_of cfg). normalizeHost u (config_normalizeHost u (fst e)) = k"
proof -
  have b: "built u ordN (rc_Routes (runtime u rs ordB ordR cfg)) r"
    using assms(3,4) runtime_routes_inv by (simp add: built_def)
  obtain p where "gm_get (pools r) k = Some p"
    using assms(5) by auto
  then obtain h as where "(h, as) \<in> set (rc_Routes (runtime u rs ordB ordR cfg))" "k = normalizeHost u h"
    using New_pool_from_route [OF b] by fastforce
  then show ?thesis
    using runtime_route_source [OF assms(1,2), of u rs ordB h as] gm_get_iff [OF runtime_routes_inv] by blast
qed

section \<open>A configuration extended by a discovered address\<close>

text \<open>What is assumed of \<open>net.ResolveTCPAddr\<close> on an IPv4 literal with a port: it answers without a lookup,
  with this address in one of its two representations, and the port.\<close>

definition resolves_literal :: "resolver \<Rightarrow> byte list \<Rightarrow> 16 word \<Rightarrow> bool" where
  "resolves_literal rs q p \<longleftrightarrow> (\<exists>ip. (ip = q \<or> ip = v4InV6Prefix @ q) \<and>
     (\<forall>site. rs site (host_port (ip4_string q) p) = Inr \<lparr>tcp_IP = ip, tcp_Port = uint p\<rparr>))"

lemma ip4_no_colon: "length q = 4 \<Longrightarrow> CHR '':'' \<notin> set (ip4_string q)"
  using ip4_string_chars digit_no_sep by blast

lemma TrimSpace_host_port: "length q = 4 \<Longrightarrow> TrimSpace (host_port (ip4_string q) p) = host_port (ip4_string q) p"
  using host_port_chars TrimSpace_graphic by blast

lemma literal_addr:
  assumes "length q = 4" and "resolves_literal rs q p" and "\<not> IsUnspecified q"
  shows "addr_ok rs site (host_port (ip4_string q) p)"
    and "resolved rs site (host_port (ip4_string q) p) = host_port (ip4_string q) p"
proof -
  let ?a = "host_port (ip4_string q) p"
  obtain ip where ip: "ip = q \<or> ip = v4InV6Prefix @ q" "rs site ?a = Inr \<lparr>tcp_IP = ip, tcp_Port = uint p\<rparr>"
    using assms(2) by (auto simp: resolves_literal_def)
  obtain b0 b1 b2 b3 where q: "q = [b0, b1, b2, b3]"
    using assms(1) by (auto simp: length_4)
  have "\<not> IsUnspecified ip" "ip \<noteq> []"
    using ip(1) assms(3) by (auto simp: q IsUnspecified_def v4InV6Prefix_def eval_nat_numeral)
  moreover have "IP_String ip = ip4_string q"
    using ip(1) IP_String_4 [OF assms(1)] IP_String_mapped [OF assms(1)] by auto
  moreover have "addr_string \<lparr>tcp_IP = ip, tcp_Port = uint p\<rparr> = ?a"
    using \<open>IP_String ip = ip4_string q\<close> ip4_no_colon [OF assms(1)]
    by (simp add: addr_string_def JoinHostPort_def fmt_d_def host_port_def nat_uint_eq)
  moreover have "TrimSpace ?a = ?a" "?a \<noteq> []"
    using TrimSpace_host_port [OF assms(1)] by (simp_all add: host_port_def)
  ultimately show "addr_ok rs site ?a" "resolved rs site ?a = ?a"
    using ip(2) by (simp_all add: addr_ok_def resolved_def)
qed

definition extended :: "Config \<Rightarrow> string \<Rightarrow> Config" where
  "extended cfg a = cfg\<lparr>cf_Backends := Some (gm_put (auto_name (bks_of cfg) a) (auto_group [a]) (bks_of cfg)),
     cf_Routes := Some (gm_put a (auto_name (bks_of cfg) a) (rts_of cfg))\<rparr>"

lemma extended_sel [simp]:
  "bks_of (extended cfg a) = gm_put (auto_name (bks_of cfg) a) (auto_group [a]) (bks_of cfg)"
  "rts_of (extended cfg a) = gm_put a (auto_name (bks_of cfg) a) (rts_of cfg)"
  "cf_Server (extended cfg a) = cf_Server cfg" "cf_Metrics (extended cfg a) = cf_Metrics cfg"
  "cf_Healthcheck (extended cfg a) = cf_Healthcheck cfg"
  by (simp_all add: extended_def)

lemma extended_metrics [simp]:
  "metrics_enabled (extended cfg a) = metrics_enabled cfg" "metrics_addr (extended cfg a) = metrics_addr cfg"
  by (simp_all add: metrics_enabled_def metrics_addr_def)

lemma extended_inv: "cfg_inv cfg \<Longrightarrow> cfg_inv (extended cfg a)"
  by (simp add: cfg_inv_def gm.inv_put)

lemma auto_name_graphic:
  assumes "\<And>c. c \<in> set a \<Longrightarrow> graphic c"
  shows "TrimSpace (auto_name bks a) = auto_name bks a" and "auto_name bks a \<noteq> []"
proof -
  have "graphic CHR ''-''" "\<forall>c \<in> set ''auto-''. graphic c"
    by code_simp+
  moreover have "\<forall>c \<in> set (fmt_d (int n)). graphic c" for n
    using dec_char_clean by simp
  ultimately have "\<forall>c \<in> set (auto_name bks a). graphic c"
    using assms by (auto simp: auto_name_def ReplaceAll1_def Let_def)
  then show "TrimSpace (auto_name bks a) = auto_name bks a"
    by (rule TrimSpace_graphic)
  show "auto_name bks a \<noteq> []"
    by (simp add: auto_name_def Let_def)
qed

lemma extended_valid:
  assumes "length q = 4" and "resolves_literal rs q p" and "\<not> IsUnspecified q" and "stable rs"
    and "cfg_inv cfg" and "cfg_valid u rs cfg" and a: "a = host_port (ip4_string q) p"
    and fresh: "gm_get (bks_of cfg) (auto_name (bks_of cfg) a) = None"
  shows "cfg_valid u rs (extended cfg a)"
proof -
  let ?n = "auto_name (bks_of cfg) a"
  have n: "TrimSpace ?n = ?n" "?n \<noteq> []"
    using auto_name_graphic [of a "bks_of cfg"] host_port_chars [OF assms(1)] a by auto
  have hd: "head_ok rs (extended cfg a)"
    using assms(6) by (simp add: cfg_valid_def head_ok_def)
  have "group_ok rs (dInterval cfg) (dTimeout cfg) (?n, auto_group [a])"
    using hd n literal_addr(1) [OF assms(1-3)]
    by (simp add: group_ok_def auto_group_def no_health_def head_ok_def durationFromMS_def a)
  then have g: "\<forall>e \<in> set (bks_of (extended cfg a)). group_ok rs (dInterval (extended cfg a)) (dTimeout (extended cfg a)) e"
    using assms(5,6) by (auto simp: cfg_inv_def cfg_valid_def set_gm_put)
  have "config_normalizeHost u a = a" "a \<noteq> []"
    using normalizeHost_clean [OF host_port_clean [OF assms(1)]]
    by (simp_all add: a config_normalizeHost_eq host_port_def)
  then have rv: "route_valid u (bks_of (extended cfg a)) e" if "e \<in> set (rts_of (extended cfg a))" for e
    using that assms(5,6) n by (auto simp: cfg_inv_def cfg_valid_def set_gm_put route_valid_def gm.get_put)
  have "route_resolves rs (bks_of (extended cfg a)) e" if "e \<in> set (rts_of (extended cfg a))" for e
    by (rule stable_route_resolves [OF assms(4) rv [OF that] g])
  then show ?thesis
    unfolding cfg_valid_def using hd g rv by blast
qed

text \<open>The router built from the extended configuration serves the address under its own name.\<close>

lemma extended_route:
  assumes "length q = 4" and "resolves_literal rs q p" and "\<not> IsUnspecified q" and "cfg_inv cfg" and "is_order ordR"
    and a: "a = host_port (ip4_string q) p"
    and other: "\<forall>e \<in> set (rts_of cfg). config_normalizeHost u (fst e) \<noteq> a"
  shows "gm_get (rc_Routes (runtime u rs ordB ordR (extended cfg a))) a = Some [a]"
proof -
  let ?n = "auto_name (bks_of cfg) a"
  have c: "config_normalizeHost u a = a"
    using normalizeHost_clean [OF host_port_clean [OF assms(1)]] by (simp add: a config_normalizeHost_eq)
  have n: "TrimSpace ?n = ?n"
    using auto_name_graphic [of a "bks_of cfg"] host_port_chars [OF assms(1)] a by auto
  have s: "set (range_map ordR (rts_of (extended cfg a))) = set (rts_of (extended cfg a))"
    using set_range_map [OF assms(5), of "rts_of (extended cfg a)"] extended_inv [OF assms(4), of a] by (simp add: cfg_inv_def)
  have only: "e = (a, ?n)" if "e \<in> set (rts_of (extended cfg a))" "config_normalizeHost u (fst e) = a" for e
    using that other assms(4) by (auto simp: cfg_inv_def set_gm_put)
  have "find (\<lambda>e. config_normalizeHost u (fst e) = a) (rev (range_map ordR (rts_of (extended cfg a)))) = Some (a, ?n)"
  proof (cases "find (\<lambda>e. config_normalizeHost u (fst e) = a) (rev (range_map ordR (rts_of (extended cfg a))))")
    case None
    then show ?thesis
      using s c assms(4) by (auto simp: find_None_iff cfg_inv_def set_gm_put)
  next
    case (Some e)
    then show ?thesis
      using find_SomeD [OF Some] s only by auto
  qed
  then show ?thesis
    using n literal_addr(2) [OF assms(1-3)]
    by (simp add: runtime_def Let_def put_routes_get route_targets_def gm.get_put auto_group_def a)
qed

lemma valid_router:
  assumes "cfg_inv cfg" and "is_order ordR" and "is_order ordN" and "cfg_valid u rs cfg"
    and "\<forall>e \<in> set (rts_of cfg). normalizeHost u (config_normalizeHost u (fst e)) \<noteq> []"
  shows "\<exists>r. Router.New u ordN (rc_Routes (runtime u rs ordB ordR cfg)) = Inr r"
proof -
  let ?R = "rc_Routes (runtime u rs ordB ordR cfg)"
  have "route_ok u e" if "e \<in> set ?R" for e
  proof -
    have "gm_get ?R (fst e) = Some (snd e)"
      using that gm_get_iff [OF runtime_routes_inv, of u rs ordB ordR cfg] by simp
    then obtain x where x: "x \<in> set (rts_of cfg)" "config_normalizeHost u (fst x) = fst e"
        "snd e = route_targets rs (bks_of cfg) x"
      using runtime_route_source [OF assms(1,2)] by metis
    then obtain grp where "gm_get (bks_of cfg) (TrimSpace (snd x)) = Some grp"
      using assms(4) by (fastforce simp: cfg_valid_def route_valid_def)
    moreover from this have "bg_Addresses grp \<noteq> []"
      using assms(4) gm_get_in_set by (fastforce simp: cfg_valid_def group_ok_def)
    ultimately show ?thesis
      using assms(5) x by (auto simp: route_ok_def route_targets_def)
  qed
  moreover have "?R \<noteq> []"
  proof -
    have "rts_of cfg \<noteq> []"
      using assms(4) by (simp add: cfg_valid_def head_ok_def)
    then have "range_map ordR (rts_of cfg) \<noteq> []"
      using set_range_map [OF assms(2), of "rts_of cfg"] assms(1) by (auto simp: cfg_inv_def)
    then show ?thesis
      using put_routes_nonempty by (simp add: runtime_def Let_def)
  qed
  ultimately have "is_ok (Router.New u ordN ?R)"
    using new_pools_ok_iff [of u "range_map ordN ?R" gm_empty gm_empty] set_range_map [OF assms(3) runtime_routes_inv]
    by (simp add: Router.New_def)
  then show ?thesis
    by (simp add: is_ok_iff)
qed

lemma extended_router:
  assumes "length q = 4" and "resolves_literal rs q p" and "\<not> IsUnspecified q" and "stable rs"
    and "cfg_inv cfg" and "is_order ordR" and "is_order ordN" and "cfg_valid u rs cfg" and a: "a = host_port (ip4_string q) p"
    and fresh: "gm_get (bks_of cfg) (auto_name (bks_of cfg) a) = None"
    and other: "\<forall>e \<in> set (rts_of cfg). normalizeHost u (config_normalizeHost u (fst e)) \<notin> {[], a}"
  shows "\<exists>r. Router.New u ordN (rc_Routes (runtime u rs ordB ordR (extended cfg a))) = Inr r
    \<and> HostForBackendAddr r a \<noteq> None \<and> gm_get (pools r) a = Some \<lparr>backends = fresh_backends [a], rr = 0\<rparr>"
proof -
  have c: "normalizeHost u a = a" "config_normalizeHost u a = a" "a \<noteq> []"
    using normalizeHost_clean [OF host_port_clean [OF assms(1)]] by (simp_all add: a config_normalizeHost_eq host_port_def)
  have hosts: "normalizeHost u (config_normalizeHost u (fst e)) \<noteq> []"
    if "e \<in> set (rts_of (extended cfg a))" for e
    using that other assms(5) c by (auto simp: cfg_inv_def set_gm_put)
  note i = extended_inv [OF assms(5)] and v = extended_valid [OF assms(1-5,8) a fresh]
  obtain r where r: "Router.New u ordN (rc_Routes (runtime u rs ordB ordR (extended cfg a))) = Inr r"
    using valid_router [OF i assms(6,7) v] hosts by blast
  have b: "built u ordN (rc_Routes (runtime u rs ordB ordR (extended cfg a))) r"
    using r assms(7) runtime_routes_inv by (simp add: built_def)
  have "\<forall>e \<in> set (rts_of cfg). config_normalizeHost u (fst e) \<noteq> a"
    using other c by auto
  from extended_route [OF assms(1-3,5,6) a this] have m: "(a, [a]) \<in> set (rc_Routes (runtime u rs ordB ordR (extended cfg a)))"
    by (rule gm_get_in_set)
  have "HostForBackendAddr r a \<noteq> None"
    using find_not_None [of "(a, [a])" _ "\<lambda>e. a \<in> set (snd e)"] m built_set [OF b]
    by (simp add: New_host_of_addr [OF b])
  moreover have "gm_get (pools r) a = Some \<lparr>backends = fresh_backends [a], rr = 0\<rparr>"
  proof -
    obtain pl where pl: "gm_get (pools r) a = Some pl"
      using New_pool_exists [OF b m] c by auto
    then obtain h as where h: "(h, as) \<in> set (rc_Routes (runtime u rs ordB ordR (extended cfg a)))"
        "a = normalizeHost u h" "pl = \<lparr>backends = fresh_backends as, rr = 0\<rparr>"
      using New_pool_from_route [OF b pl] by auto
    then have g: "gm_get (rc_Routes (runtime u rs ordB ordR (extended cfg a))) h = Some as"
      using gm_get_iff [OF runtime_routes_inv] by blast
    from runtime_route_source [OF i assms(6) g] h(2) have "h = a"
      using other assms(5) c by (auto simp: cfg_inv_def set_gm_put)
    then show ?thesis
      using pl h m g gm_get_iff [OF runtime_routes_inv, of u rs ordB ordR "extended cfg a" a "[a]"] by auto
  qed
  ultimately show ?thesis
    using r by blast
qed

section \<open>Properties\<close>

lemma discover_work_keys: "di_discovering (snd (discover_work u y lookup reloadFn h p d)) = di_discovering d"
  by (auto simp: discover_work_def split: sum.split prod.split bool.split)

text \<open>\<open>Discover\<close> gives back its key on every path, and a target that is being discovered is left alone.\<close>

theorem discover_key_released:
  "di_discovering (snd (Discover u y lookup reloadFn h p d)) = di_discovering d
   \<and> (host_port h p \<in> set (di_discovering d) \<longrightarrow> Discover u y lookup reloadFn h p d = (Inr False, d))"
  using discover_work_keys [of u y lookup reloadFn h p "d\<lparr>di_discovering := host_port h p # di_discovering d\<rparr>"]
  by (auto simp: Discover_def Let_def removeAll_id split: prod.splits)

theorem discover_key_released_witness:
  "Discover ascii_tables (wo_yaml demo_world) (\<lambda>_. Inr []) (\<lambda>d r. (Inr (), r)) ''10.0.0.9'' 80
     ((newDiscoverer ''config.yaml'' (wo_disk demo_world) ())\<lparr>di_discovering := [host_port ''10.0.0.9'' 80]\<rparr>)
   = (Inr False, (newDiscoverer ''config.yaml'' (wo_disk demo_world) ())\<lparr>di_discovering := [host_port ''10.0.0.9'' 80]\<rparr>)"
  using discover_key_released [of ascii_tables "wo_yaml demo_world" "\<lambda>_. Inr []" "\<lambda>d r. (Inr (), r)" "''10.0.0.9''" 80
      "(newDiscoverer ''config.yaml'' (wo_disk demo_world) ())\<lparr>di_discovering := [host_port ''10.0.0.9'' 80]\<rparr>"]
  by simp

text \<open>A name that looks like an IPv4 address is discovered in vain. The route is added under
  \<open>ip:port\<close>, while a session looks the name up without the port: unless some other route has that
  name, the router built from the extended configuration still has no route for it.\<close>

theorem textual_ip_not_routed:
  assumes "length q = 4" and "cfg_inv cfg" and "is_order ordB" and "is_order ordR" and "is_order ordN"
    and "AddAutoDiscoveredRoute u cfg (route_host (ip4_string q) p) addrs = (Inr True, cfg')"
    and "normalizeAndValidate u rs ordB ordR cfg' = Ok rc" and "Router.New u ordN (rc_Routes rc) = Inr r"
    and "\<forall>e \<in> set (rts_of cfg). normalizeHost u (config_normalizeHost u (fst e)) \<noteq> ip4_string q"
  shows "Pick u r (ip4_string q) = (Inl err_RouteNotFound, r)"
proof -
  let ?a = "host_port (ip4_string q) p"
  have a: "normalizeHost u ?a = ?a" "config_normalizeHost u ?a = ?a"
    using normalizeHost_clean [OF host_port_clean [OF assms(1)]] by (simp_all add: config_normalizeHost_eq)
  have ne: "?a \<noteq> ip4_string q"
    by (simp add: host_port_def)
  have i': "cfg_inv cfg'" and rts': "rts_of cfg' = gm_put ?a (auto_name (bks_of cfg) ?a) (rts_of cfg)"
    using assms(2,6) a
    by (auto simp: AddAutoDiscoveredRoute_def route_host_ip4 [OF assms(1)] auto_name_def cfg_inv_def Let_def gm.inv_put
        split: if_splits)
  have rc: "rc = runtime u rs ordB ordR cfg'"
    using nv_Ok_iff [OF i' assms(3,4)] assms(7) by simp
  have e: "normalizeHost u (config_normalizeHost u (fst e)) \<noteq> ip4_string q" if "e \<in> set (rts_of cfg')" for e
    using that assms(2,9) ne by (auto simp: rts' cfg_inv_def set_gm_put a)
  have k: "normalizeHost u (ip4_string q) = ip4_string q"
  proof (rule normalizeHost_clean)
    obtain w x y z where q: "q = [w, x, y, z]"
      using assms(1) by (auto simp: length_4)
    have "is_digit (last (dec (unat z)))"
      using dec_digits dec_not_Nil last_in_set by blast
    then have "last (ip4_string q) \<noteq> CHR ''.''"
      by (auto simp: q ip4_string_def is_digit_def ord_byte_def)
    then show "clean_host (ip4_string q)"
      using ip4_clean [OF assms(1)] by (auto simp: clean_host_def suffix_def)
  qed
  have "gm_get (pools r) (ip4_string q) = None"
  proof (rule ccontr)
    assume "gm_get (pools r) (ip4_string q) \<noteq> None"
    from router_key_source [OF i' assms(4,5) assms(8) [unfolded rc] this] e show False by blast
  qed
  then show ?thesis
    by (simp add: Pick_cases k)
qed

abbreviation "demo_ip \<equiv> [10, 0, 0, 5] :: byte list"

lemma demo_ip_addr: "host_port (ip4_string demo_ip) 80 = ''10.0.0.5:80''"
  by code_simp

lemma demo_ip_literal: "resolves_literal literal_resolver demo_ip 80"
proof -
  have "literal_resolver AtListen ''10.0.0.5:80'' = Inr \<lparr>tcp_IP = demo_ip, tcp_Port = 80\<rparr>"
    by code_simp
  then have "literal_resolver site ''10.0.0.5:80'' = Inr \<lparr>tcp_IP = demo_ip, tcp_Port = 80\<rparr>" for site
    using literal_resolver_stable by (metis stable_def)
  then show ?thesis
    by (simp add: resolves_literal_def demo_ip_addr)
qed

lemma demo_ip_specified: "\<not> IsUnspecified demo_ip"
  by code_simp

lemma demo_ip_fresh: "gm_get (bks_of demo_cfg) (auto_name (bks_of demo_cfg) ''10.0.0.5:80'') = None"
  by code_simp

lemma demo_ip_new:
  "\<forall>e \<in> set (rts_of demo_cfg). normalizeHost ascii_tables (config_normalizeHost ascii_tables (fst e))
     \<notin> {[], host_port (ip4_string demo_ip) 80, ip4_string demo_ip}"
proof -
  have "normalizeHost ascii_tables ''api.internal'' = ''api.internal''"
    "normalizeHost ascii_tables ''api.example.com'' = ''api.example.com''" "ip4_string demo_ip = ''10.0.0.5''"
    by code_simp+
  moreover have "rts_of demo_cfg = [(''API.internal'', ''pool''), (''api.example.com'', '' pool'')]"
    by (simp add: demo_cfg_def)
  ultimately show ?thesis
    using demo_ip_addr by (simp add: demo_cfg_hosts)
qed

lemma demo_ip_add:
  "AddAutoDiscoveredRoute ascii_tables demo_cfg (route_host (ip4_string demo_ip) 80) [''10.0.0.5:80'']
     = (Inr True, extended demo_cfg ''10.0.0.5:80'')"
proof -
  have "config_normalizeHost ascii_tables ''10.0.0.5:80'' = ''10.0.0.5:80''"
    by code_simp
  moreover have "gm_get (rts_of demo_cfg) ''10.0.0.5:80'' = None"
    by code_simp
  ultimately show ?thesis
    using AddAuto_adds [of ascii_tables "''10.0.0.5:80''" _ "[''10.0.0.5:80'']" demo_cfg]
    by (simp add: route_host_ip4 demo_ip_addr extended_def)
qed

theorem textual_ip_not_routed_witness:
  "\<exists>r. Router.New ascii_tables rev
       (rc_Routes (runtime ascii_tables literal_resolver rev rev (extended demo_cfg ''10.0.0.5:80''))) = Inr r
     \<and> gm_get (pools r) ''10.0.0.5:80'' \<noteq> None
     \<and> Pick ascii_tables r (ip4_string demo_ip) = (Inl err_RouteNotFound, r)"
proof -
  have v: "cfg_valid ascii_tables literal_resolver (extended demo_cfg ''10.0.0.5:80'')"
    by (rule extended_valid [OF _ demo_ip_literal demo_ip_specified literal_resolver_stable demo_cfg_inv demo_cfg_valid
          demo_ip_addr [symmetric] demo_ip_fresh]) simp
  have o: "\<forall>e \<in> set (rts_of demo_cfg). normalizeHost ascii_tables (config_normalizeHost ascii_tables (fst e)) \<notin> {[], ''10.0.0.5:80''}"
    "\<forall>e \<in> set (rts_of demo_cfg). normalizeHost ascii_tables (config_normalizeHost ascii_tables (fst e)) \<noteq> ip4_string demo_ip"
    using demo_ip_new by (auto simp: demo_ip_addr)
  obtain r where r: "Router.New ascii_tables rev
      (rc_Routes (runtime ascii_tables literal_resolver rev rev (extended demo_cfg ''10.0.0.5:80''))) = Inr r"
    "gm_get (pools r) ''10.0.0.5:80'' \<noteq> None"
    using extended_router [OF _ demo_ip_literal demo_ip_specified literal_resolver_stable demo_cfg_inv is_order_rev is_order_rev
        demo_cfg_valid demo_ip_addr [symmetric] demo_ip_fresh o(1), of rev] by auto
  have n: "normalizeAndValidate ascii_tables literal_resolver rev rev (extended demo_cfg ''10.0.0.5:80'')
      = Ok (runtime ascii_tables literal_resolver rev rev (extended demo_cfg ''10.0.0.5:80''))"
    using nv_Ok_iff [OF extended_inv [OF demo_cfg_inv] is_order_rev is_order_rev] v by blast
  show ?thesis
    using textual_ip_not_routed [OF _ demo_cfg_inv is_order_rev is_order_rev is_order_rev demo_ip_add n r(1) o(2)] r by auto
qed

end
