(* ===== verification/Discovery_Steps.thy ===== *)
theory Discovery_Steps
  imports Discovery
begin

text \<open>
  Several sessions run \<open>Discover\<close> of \<open>cmd/zerosock/discovery.go\<close> at once. A call is a thread whose steps are the accesses to
  what the threads share: taking the key, reading and editing the configuration file, writing it, asking for a
  reload, giving the key back. The mutex guards only the set of keys; the file is read and written outside it. A
  schedule is the list of threads that move.
\<close>

section \<open>Threads\<close>

datatype disc_pc =
    DStart string "16 word"
  | DWork string "16 word"
  | DResolved string "16 word" "string list"
  | DEdited string "16 word" "string list" Config
  | DSaved string "16 word" "string list"
  | DUnlock string "16 word" "bool result"
  | DDone "bool result"

fun disc_next ::
  "unicode \<Rightarrow> yaml \<Rightarrow> (string \<Rightarrow> string list result) \<Rightarrow> (disk \<Rightarrow> 'r \<Rightarrow> unit result \<times> 'r)
     \<Rightarrow> disc_pc \<times> 'r discoverer \<Rightarrow> disc_pc \<times> 'r discoverer" where
  "disc_next u y lookup reloadFn (DStart host port, d) =
     (let key = host_port host port
      in if key \<in> set (di_discovering d) then (DDone (Inr False), d)
         else (DWork host port, d\<lparr>di_discovering := key # di_discovering d\<rparr>))"
| "disc_next u y lookup reloadFn (DWork host port, d) =
     (case resolve u lookup host port of
        Inl e \<Rightarrow> (DUnlock host port (Inl e), d)
      | Inr addresses \<Rightarrow>
          if addresses = [] then (DUnlock host port (Inl (errors_New (''no addresses for '' @ host))), d)
          else (DResolved host port addresses, d))"
| "disc_next u y lookup reloadFn (DResolved host port addresses, d) =
     (case LoadRaw y (di_disk d) (di_configPath d) of
        Inl e \<Rightarrow> (DUnlock host port (Inl (errorf_w ''load config'' e)), d)
      | Inr cfg \<Rightarrow>
          (case AddAutoDiscoveredRoute u cfg (route_host host port) addresses of
             (Inl e, _) \<Rightarrow> (DUnlock host port (Inl e), d)
           | (Inr False, _) \<Rightarrow> (DUnlock host port (Inr False), d)
           | (Inr True, cfg') \<Rightarrow> (DEdited host port addresses cfg', d)))"
| "disc_next u y lookup reloadFn (DEdited host port addresses cfg', d) =
     (case Save y (di_disk d) (di_configPath d) cfg' of
        (Inl e, dk) \<Rightarrow> (DUnlock host port (Inl (errorf_w ''save config'' e)), d\<lparr>di_disk := dk\<rparr>)
      | (Inr _, dk) \<Rightarrow> (DSaved host port addresses, d\<lparr>di_disk := dk\<rparr>))"
| "disc_next u y lookup reloadFn (DSaved host port addresses, d) =
     (case reloadFn (di_disk d) (di_rest d) of
        (Inl e, r) \<Rightarrow> (DUnlock host port (Inl (errorf_w ''reload after discovery'' e)), d\<lparr>di_rest := r\<rparr>)
      | (Inr _, r) \<Rightarrow> (DUnlock host port (Inr True), d\<lparr>di_rest := r,
          di_log := di_log d @ [''auto-discovery: added '' @ Quote (uc_print u) (route_host host port)
            @ '' -> '' @ dec (length addresses) @ '' addresses'']\<rparr>))"
| "disc_next u y lookup reloadFn (DUnlock host port res, d) =
     (DDone res, d\<lparr>di_discovering := removeAll (host_port host port) (di_discovering d)\<rparr>)"
| "disc_next u y lookup reloadFn (DDone res, d) = (DDone res, d)"

definition disc_step ::
  "unicode \<Rightarrow> yaml \<Rightarrow> (string \<Rightarrow> string list result) \<Rightarrow> (disk \<Rightarrow> 'r \<Rightarrow> unit result \<times> 'r)
     \<Rightarrow> disc_pc list \<times> 'r discoverer \<Rightarrow> nat \<Rightarrow> disc_pc list \<times> 'r discoverer" where
  "disc_step u y lookup reloadFn x t =
     (if t < length (fst x) then let (pc, d) = disc_next u y lookup reloadFn (fst x ! t, snd x) in ((fst x)[t := pc], d) else x)"

definition disc_run ::
  "unicode \<Rightarrow> yaml \<Rightarrow> (string \<Rightarrow> string list result) \<Rightarrow> (disk \<Rightarrow> 'r \<Rightarrow> unit result \<times> 'r)
     \<Rightarrow> nat list \<Rightarrow> disc_pc list \<times> 'r discoverer \<Rightarrow> disc_pc list \<times> 'r discoverer" where
  "disc_run u y lookup reloadFn sched x = foldl (disc_step u y lookup reloadFn) x sched"

section \<open>One call at a time\<close>

text \<open>\<open>discover_work\<close> and \<open>Discover\<close> are what a thread does that is not disturbed.\<close>

lemma discover_steps:
  "(disc_next u y lookup reloadFn ^^ 6) (DStart host port, d) =
     (DDone (fst (Discover u y lookup reloadFn host port d)), snd (Discover u y lookup reloadFn host port d))"
  by (simp add: eval_nat_numeral Discover_def discover_work_def Let_def
      split: sum.split prod.split bool.split if_split)

section \<open>Keys\<close>

fun held_key :: "disc_pc \<Rightarrow> string option" where
  "held_key (DStart h p) = None" | "held_key (DDone res) = None"
| "held_key (DWork h p) = Some (host_port h p)" | "held_key (DResolved h p as) = Some (host_port h p)"
| "held_key (DEdited h p as cfg) = Some (host_port h p)" | "held_key (DSaved h p as) = Some (host_port h p)"
| "held_key (DUnlock h p res) = Some (host_port h p)"

text \<open>The keys \<open>hk i\<close> held by the threads are those in the set, each held by one thread.\<close>

definition matched :: "(nat \<Rightarrow> string option) \<Rightarrow> string set \<Rightarrow> bool" where
  "matched hk ks \<longleftrightarrow> (\<forall>i k. hk i = Some k \<longrightarrow> k \<in> ks) \<and> (\<forall>k \<in> ks. \<exists>i. hk i = Some k)
     \<and> (\<forall>i j k. hk i = Some k \<longrightarrow> hk j = Some k \<longrightarrow> i = j)"

definition held_at :: "disc_pc list \<Rightarrow> nat \<Rightarrow> string option" where
  "held_at ts i = (if i < length ts then held_key (ts ! i) else None)"

definition exclusive :: "disc_pc list \<times> 'r discoverer \<Rightarrow> bool" where
  "exclusive x \<longleftrightarrow> matched (held_at (fst x)) (set (di_discovering (snd x)))"

lemma matched_take:
  assumes "matched hk ks" and "hk t = None" and "k \<notin> ks"
  shows "matched (hk(t := Some k)) (insert k ks)"
  unfolding matched_def
proof (intro conjI)
  show "\<forall>l \<in> insert k ks. \<exists>i. (hk(t := Some k)) i = Some l"
  proof
    fix l assume "l \<in> insert k ks"
    then consider "l = k" | i where "hk i = Some l" "i \<noteq> t"
      using assms unfolding matched_def by (metis insertE option.distinct(1))
    then show "\<exists>i. (hk(t := Some k)) i = Some l"
      by cases (metis fun_upd_same, metis fun_upd_other)
  qed
qed (use assms in \<open>auto simp: matched_def split: if_splits\<close>)

lemma matched_release:
  assumes "matched hk ks" and "hk t = Some k"
  shows "matched (hk(t := None)) (ks - {k})"
  unfolding matched_def
proof (intro conjI)
  show "\<forall>i l. (hk(t := None)) i = Some l \<longrightarrow> l \<in> ks - {k}"
    using assms unfolding matched_def by (auto split: if_splits)
  show "\<forall>l \<in> ks - {k}. \<exists>i. (hk(t := None)) i = Some l"
  proof
    fix l assume "l \<in> ks - {k}"
    then obtain i where "hk i = Some l" "i \<noteq> t"
      using assms unfolding matched_def by (metis DiffE insertI1 option.inject)
    then show "\<exists>i. (hk(t := None)) i = Some l"
      by (intro exI [of _ i]) simp
  qed
  show "\<forall>i j l. (hk(t := None)) i = Some l \<longrightarrow> (hk(t := None)) j = Some l \<longrightarrow> i = j"
    using assms unfolding matched_def by (auto split: if_splits)
qed

lemma held_at_update: "t < length ts \<Longrightarrow> held_at (ts[t := pc]) = (held_at ts)(t := held_key pc)"
  by (auto simp: held_at_def nth_list_update)

text \<open>What a step does to the keys: take a new one, give one back, or nothing.\<close>

lemma disc_next_keys:
  assumes "disc_next u y lookup reloadFn (pc, d) = (pc', d')"
  shows "(held_key pc' = held_key pc \<and> di_discovering d' = di_discovering d)
    \<or> (\<exists>k. held_key pc = None \<and> held_key pc' = Some k \<and> k \<notin> set (di_discovering d) \<and> di_discovering d' = k # di_discovering d)
    \<or> (\<exists>k. held_key pc = Some k \<and> held_key pc' = None \<and> di_discovering d' = removeAll k (di_discovering d))"
  using assms
  by (cases "(u, y, lookup, reloadFn, pc, d)" rule: disc_next.cases)
    (auto simp: Let_def split: sum.splits prod.splits bool.splits if_splits)

lemma disc_step_exclusive:
  assumes "exclusive x"
  shows "exclusive (disc_step u y lookup reloadFn x t)"
proof (cases "t < length (fst x)")
  case True
  obtain pc d where n: "disc_next u y lookup reloadFn (fst x ! t, snd x) = (pc, d)"
    by fastforce
  have s: "disc_step u y lookup reloadFn x t = ((fst x)[t := pc], d)"
    using True n by (simp add: disc_step_def)
  have h: "held_at (fst x) t = held_key (fst x ! t)"
    using True by (simp add: held_at_def)
  from disc_next_keys [OF n] show ?thesis
  proof (elim disjE exE conjE)
    assume "held_key pc = held_key (fst x ! t)" "di_discovering d = di_discovering (snd x)"
    then show ?thesis
      using assms True h by (simp add: s exclusive_def held_at_update fun_upd_idem)
  next
    fix k assume "held_key (fst x ! t) = None" "held_key pc = Some k" "k \<notin> set (di_discovering (snd x))"
      "di_discovering d = k # di_discovering (snd x)"
    then show ?thesis
      using assms True h by (simp add: s exclusive_def held_at_update matched_take)
  next
    fix k assume "held_key (fst x ! t) = Some k" "held_key pc = None" "di_discovering d = removeAll k (di_discovering (snd x))"
    then show ?thesis
      using assms True h by (simp add: s exclusive_def held_at_update matched_release)
  qed
qed (use assms in \<open>simp add: disc_step_def\<close>)

lemma disc_run_exclusive: "exclusive x \<Longrightarrow> exclusive (disc_run u y lookup reloadFn sched x)"
  unfolding disc_run_def by (induction sched arbitrary: x) (simp_all add: disc_step_exclusive)

lemma disc_run_length: "length (fst (disc_run u y lookup reloadFn sched x)) = length (fst x)"
  unfolding disc_run_def by (induction sched arbitrary: x) (simp_all add: disc_step_def split_beta)

section \<open>Properties\<close>

text \<open>C34: one discovery per target at a time, under every schedule. However the threads interleave, no two of them hold the
  key of the same target, a key is held exactly while its thread is at work, and once all threads are
  done no key is left behind.\<close>

theorem discovery_exclusive:
  assumes "di_discovering d = []" and "list_all (\<lambda>pc. \<exists>h p. pc = DStart h p) ts"
    and "disc_run u y lookup reloadFn sched (ts, d) = (ts', d')"
  shows "(\<forall>i j k. held_at ts' i = Some k \<longrightarrow> held_at ts' j = Some k \<longrightarrow> i = j)
    \<and> set (di_discovering d') = {k. \<exists>i. held_at ts' i = Some k}
    \<and> (list_all (\<lambda>pc. \<exists>res. pc = DDone res) ts' \<longrightarrow> di_discovering d' = [])"
proof -
  have "held_at ts i = None" for i
    using assms(2) by (fastforce simp: held_at_def list_all_length)
  then have "exclusive (ts, d)"
    using assms(1) by (simp add: exclusive_def matched_def)
  then have m: "matched (held_at ts') (set (di_discovering d'))"
    using disc_run_exclusive [of "(ts, d)" u y lookup reloadFn sched] assms(3) by (simp add: exclusive_def)
  then have s: "set (di_discovering d') = {k. \<exists>i. held_at ts' i = Some k}"
    by (auto simp: matched_def)
  moreover have "di_discovering d' = []" if "list_all (\<lambda>pc. \<exists>res. pc = DDone res) ts'"
  proof -
    have "held_at ts' i = None" for i
      using that by (fastforce simp: held_at_def list_all_length)
    then show ?thesis
      using s by simp
  qed
  ultimately show ?thesis
    using m by (auto simp: matched_def)
qed

text \<open>The schedule in which both threads read the file before either writes it.\<close>

definition both_read_first :: "nat list" where
  "both_read_first = [0, 0, 0, 1, 1, 1, 0, 0, 0, 1, 1, 1]"

lemma removeAll_other: "k \<notin> set xs \<Longrightarrow> removeAll k xs = xs"
  by (simp add: removeAll_id)

text \<open>C40: concurrent discoveries of different targets can lose one. If both threads read the file before either writes
  it, both report their route as added, but the file then holds only the second: the next load does not know the first
  target.\<close>

theorem concurrent_discovery_loses_route:
  assumes "host_port h1 p1 \<noteq> host_port h2 p2" and "di_discovering d = []"
    and "resolve u lookup h1 p1 = Inr as1" "as1 \<noteq> []" and "resolve u lookup h2 p2 = Inr as2" "as2 \<noteq> []"
    and "LoadRaw y (di_disk d) (di_configPath d) = Inr cfg" and "cfg_inv cfg"
    and "AddAutoDiscoveredRoute u cfg (route_host h1 p1) as1 = (Inr True, cfg1)"
    and "AddAutoDiscoveredRoute u cfg (route_host h2 p2) as2 = (Inr True, cfg2)"
    and "config_normalizeHost u (route_host h1 p1) \<noteq> config_normalizeHost u (route_host h2 p2)"
    and "write_fails (di_disk d) (di_configPath d) = None" and "yaml_Marshal y cfg1 = Inr out1"
    and "yaml_Marshal y cfg2 = Inr out2" and "yaml_Unmarshal y out2 = Inr cfg2" and "\<And>dk r. fst (reloadFn dk r) = Inr ()"
  shows "\<exists>d'. disc_run u y lookup reloadFn both_read_first ([DStart h1 p1, DStart h2 p2], d)
      = ([DDone (Inr True), DDone (Inr True)], d')
    \<and> LoadRaw y (di_disk d') (di_configPath d') = Inr cfg2
    \<and> gm_get (rts_of cfg2) (config_normalizeHost u (route_host h1 p1)) = None"
proof -
  have n: "gm_get (rts_of cfg) (config_normalizeHost u (route_host h1 p1)) = None"
    using assms(9) by (auto simp: AddAutoDiscoveredRoute_def Let_def split: if_splits)
  then have "gm_get (rts_of cfg2) (config_normalizeHost u (route_host h1 p1)) = None"
    using assms(10,11) by (auto simp: AddAutoDiscoveredRoute_def Let_def gm.get_put split: if_splits)
  moreover obtain raw where "files (di_disk d) (di_configPath d) = Inr raw" "yaml_Unmarshal y raw = Inr cfg"
    using assms(7) by (auto simp: LoadRaw_def split: sum.splits)
  ultimately show ?thesis
    using assms(1-6,9-15)
    by (simp add: disc_run_def both_read_first_def disc_step_def Let_def Save_def LoadRaw_def removeAll_other split_beta assms(16))
qed

text \<open>Two threads for one target, and two for different targets of the demonstration configuration.\<close>

theorem discovery_exclusive_witness:
  "held_at (fst (disc_run ascii_tables (wo_yaml demo_world) (\<lambda>_. Inr []) (\<lambda>dk r. (Inr (), r)) [0, 1]
     ([DStart ''10.0.0.9'' 80, DStart ''10.0.0.9'' 80], newDiscoverer ''config.yaml'' (wo_disk demo_world) ()))) 1 = None"
proof -
  let ?x = "disc_run ascii_tables (wo_yaml demo_world) (\<lambda>_. Inr []) (\<lambda>dk r. (Inr (), r)) [0, 1]
     ([DStart ''10.0.0.9'' 80, DStart ''10.0.0.9'' 80], newDiscoverer ''config.yaml'' (wo_disk demo_world) ())"
  have "held_at (fst ?x) 0 = Some (host_port ''10.0.0.9'' 80)"
    "held_at (fst ?x) 1 = None \<or> held_at (fst ?x) 1 = Some (host_port ''10.0.0.9'' 80)"
    by (simp_all add: disc_run_def disc_step_def held_at_def newDiscoverer_def Let_def)
  then show ?thesis
    using discovery_exclusive [of "newDiscoverer ''config.yaml'' (wo_disk demo_world) ()"
        "[DStart ''10.0.0.9'' 80, DStart ''10.0.0.9'' 80]" ascii_tables "wo_yaml demo_world" "\<lambda>_. Inr []" "\<lambda>dk r. (Inr (), r)" "[0, 1]"
        "fst ?x" "snd ?x"]
    by (auto simp: newDiscoverer_def)
qed

abbreviation "other_ip \<equiv> [10, 0, 0, 6] :: byte list"
abbreviation "cfg_one \<equiv> extended demo_cfg ''10.0.0.5:80''"
abbreviation "cfg_two \<equiv> extended demo_cfg ''10.0.0.6:80''"

lemma other_ip_addr: "host_port (ip4_string other_ip) 80 = ''10.0.0.6:80''"
  by code_simp

lemma other_ip_add:
  "AddAutoDiscoveredRoute ascii_tables demo_cfg (route_host (ip4_string other_ip) 80) [''10.0.0.6:80''] = (Inr True, cfg_two)"
proof -
  have "config_normalizeHost ascii_tables ''10.0.0.6:80'' = ''10.0.0.6:80''"
    by code_simp
  moreover have "gm_get (rts_of demo_cfg) ''10.0.0.6:80'' = None"
    by code_simp
  ultimately show ?thesis
    using AddAuto_adds [of ascii_tables "''10.0.0.6:80''" _ "[''10.0.0.6:80'']" demo_cfg]
    by (simp add: route_host_ip4 other_ip_addr extended_def)
qed

definition pair_yaml :: yaml where
  "pair_yaml = \<lparr>yaml_Unmarshal = (\<lambda>raw. Inr (if raw = ''one'' then cfg_one else if raw = ''two'' then cfg_two else demo_cfg)),
     yaml_Marshal = (\<lambda>c. Inr (if c = cfg_one then ''one'' else if c = cfg_two then ''two'' else ''cfg''))\<rparr>"

lemma cfg_one_two: "cfg_one \<noteq> cfg_two"
proof -
  have "gm_get (rts_of cfg_one) ''10.0.0.5:80'' \<noteq> None"
    by (simp add: gm.get_put)
  moreover have "gm_get (rts_of demo_cfg) ''10.0.0.5:80'' = None"
    by code_simp
  then have "gm_get (rts_of cfg_two) ''10.0.0.5:80'' = None"
    by (simp add: gm.get_put)
  ultimately show ?thesis
    by metis
qed

theorem concurrent_discovery_loses_route_witness:
  "\<exists>d'. disc_run ascii_tables pair_yaml (\<lambda>_. Inr []) (\<lambda>dk r. (Inr (), r)) both_read_first
      ([DStart (ip4_string demo_ip) 80, DStart (ip4_string other_ip) 80], newDiscoverer ''config.yaml'' (wo_disk demo_world) ())
      = ([DDone (Inr True), DDone (Inr True)], d')
    \<and> LoadRaw pair_yaml (di_disk d') (di_configPath d') = Inr cfg_two"
proof -
  have n: "config_normalizeHost ascii_tables ''10.0.0.5:80'' = ''10.0.0.5:80''" "config_normalizeHost ascii_tables ''10.0.0.6:80'' = ''10.0.0.6:80''"
    by code_simp+
  have y: "yaml_Marshal pair_yaml cfg_one = Inr ''one''" "yaml_Marshal pair_yaml cfg_two = Inr ''two''"
    "yaml_Unmarshal pair_yaml ''two'' = Inr cfg_two"
    using cfg_one_two by (simp_all add: pair_yaml_def)
  have "resolve ascii_tables (\<lambda>_. Inr []) (ip4_string demo_ip) 80 = Inr [''10.0.0.5:80'']"
    "resolve ascii_tables (\<lambda>_. Inr []) (ip4_string other_ip) 80 = Inr [''10.0.0.6:80'']"
    by (simp_all add: resolve_ip4 demo_ip_addr other_ip_addr)
  moreover have "LoadRaw pair_yaml (wo_disk demo_world) ''config.yaml'' = Inr demo_cfg"
    by (simp add: LoadRaw_def demo_world_def pair_yaml_def)
  ultimately show ?thesis
    using concurrent_discovery_loses_route [of "ip4_string demo_ip" 80 "ip4_string other_ip" 80
        "newDiscoverer ''config.yaml'' (wo_disk demo_world) ()" ascii_tables "\<lambda>_. Inr []" "[''10.0.0.5:80'']" "[''10.0.0.6:80'']"
        pair_yaml demo_cfg cfg_one cfg_two "''one''" "''two''" "\<lambda>dk r. (Inr (), r)"] demo_ip_add other_ip_add demo_cfg_inv y n
    by (simp add: newDiscoverer_def demo_ip_addr other_ip_addr route_host_ip4) (auto simp: demo_world_def)
qed

end
