(* ===== verification/Drain.thy ===== *)
theory Drain
  imports Server
begin

text \<open>
  How a shutdown of the server comes to an end. Once the listener is closed, the threads of
  \<open>internal/socks/server.go\<close> have a bounded number of steps left. Whether a session ends is not in the hands of the server: a peer may be
  silent where no deadline is set, and a discovery may wait for a reload answer that never comes (\<open>Reload_Channel\<close>). The
  predicate \<open>stuck\<close> says which goroutines wait for good and at which stage; it is arbitrary. When no step is left, every other client has been served, and
  the books count exactly the stuck ones.
\<close>

section \<open>Steps of the threads\<close>

text \<open>The steps of \<open>Server.step\<close> that are taken by the accept loop or by a client's goroutine after the listener was
  closed; the other two, \<open>Shutdown\<close> and \<open>UpdateRouter\<close>, come from outside. A stuck session takes none; deferred calls do not wait.\<close>

inductive thread_step :: "(nat \<Rightarrow> phase \<Rightarrow> bool) \<Rightarrow> 'x server \<Rightarrow> 'x server \<Rightarrow> bool" for stuck where
  accept: "sv_pc s = Waiting \<Longrightarrow> sv_listener s = Some False \<Longrightarrow> errors_Is e NetErrClosed \<Longrightarrow>
    thread_step stuck s (Serve_accept (Inl e) s)"
| count: "sv_pc s = HasToken c \<Longrightarrow> thread_step stuck s (Serve_count c s)"
| add: "sv_pc s = IsCounted c \<Longrightarrow> thread_step stuck s (Serve_add c s)"
| go: "sv_pc s = IsAdded c \<Longrightarrow> thread_step stuck s (Serve_go c s)"
| handshake: "i < length (sv_sessions s) \<Longrightarrow> sv_sessions s ! i = Running c \<Longrightarrow> \<not> stuck i (Running c) \<Longrightarrow>
    thread_step stuck s (serveClient_open E i c s)"
| session: "i < length (sv_sessions s) \<Longrightarrow> sv_sessions s ! i = InSession E st c \<Longrightarrow> \<not> stuck i (InSession E st c) \<Longrightarrow>
    thread_step stuck s (serveClient_next E i st c s)"
| deferred: "i < length (sv_sessions s) \<Longrightarrow> sv_sessions s ! i = p \<Longrightarrow> is_deferred p \<Longrightarrow>
    thread_step stuck s (serveClient_defer i p s)"

lemma thread_step_is_step: "thread_step stuck s s' \<Longrightarrow> step s s'"
  by (induction rule: thread_step.induct) (auto intro: step.intros)

text \<open>With a closed listener there are no other steps than these, those of the stuck sessions and the two from outside.\<close>

lemma closed_steps:
  assumes "step s s'" and "sv_listener s = Some False" and "sv_pc s \<noteq> NotStarted"
  shows "thread_step (\<lambda>i p. False) s s' \<or> (\<exists>cl. s' = snd (Shutdown cl s)) \<or> (\<exists>r. s' = server_UpdateRouter r s)"
  using assms(1) by cases (use assms(2,3) in \<open>auto intro: thread_step.intros\<close>)

text \<open>A run with \<open>n\<close> steps of threads, between which routers may be replaced and \<open>Shutdown\<close> called again.\<close>

inductive drain_run :: "(nat \<Rightarrow> phase \<Rightarrow> bool) \<Rightarrow> 'x server \<Rightarrow> nat \<Rightarrow> 'x server \<Rightarrow> bool" for stuck s0 where
  start: "drain_run stuck s0 0 s0"
| thread: "drain_run stuck s0 n s \<Longrightarrow> thread_step stuck s s' \<Longrightarrow> drain_run stuck s0 (Suc n) s'"
| update: "drain_run stuck s0 n s \<Longrightarrow> drain_run stuck s0 n (server_UpdateRouter r s)"
| shutdown: "drain_run stuck s0 n s \<Longrightarrow> drain_run stuck s0 n (snd (Shutdown cl s))"

lemma drain_run_reachable: "drain_run stuck s0 n s \<Longrightarrow> reachable s00 s0 \<Longrightarrow> reachable s00 s"
  by (induction rule: drain_run.induct) (auto intro: reachable.more step.intros thread_step_is_step)

section \<open>The work that is left\<close>

fun phase_work :: "phase \<Rightarrow> nat" where
  "phase_work (Running c) = 11" | "phase_work (InSession E st c) = 5 + stage_work st"
| "phase_work (ReleaseToken c) = 4" | "phase_work (DecGauge c) = 3"
| "phase_work (CloseConn c) = 2" | "phase_work (CallDone c) = 1" | "phase_work (Gone c) = 0"

fun pc_work :: "accept_pc \<Rightarrow> nat" where
  "pc_work NotStarted = 0" | "pc_work (Returned e) = 0" | "pc_work Waiting = 1" | "pc_work (IsAdded c) = 13"
| "pc_work (IsCounted c) = 14" | "pc_work (HasToken c) = 15"

definition work_left :: "'x server \<Rightarrow> nat" where
  "work_left s = pc_work (sv_pc s) + sum_list (map phase_work (sv_sessions s))"

lemma sum_update_less:
  assumes "i < length xs" and "(f :: 'a \<Rightarrow> nat) y < f (xs ! i)"
  shows "sum_list (map f (xs[i := y])) < sum_list (map f xs)"
  using assms by (induction xs arbitrary: i) (auto simp: less_Suc_eq_0_disj)

lemma phase_after_work: "phase_work (phase_after E st c) \<le> 4 + stage_work st + (if stage_work st = 0 then 0 else 1)"
  by (cases st) (simp_all add: phase_after_def)

lemma stage_work_le: "stage_work st \<le> 5"
  by (cases st) simp_all

lemma open_phase_work: "phase_work (phase_after E (fst (session_open E' rt ss)) c) < phase_work (Running d)"
  using phase_after_work [of E "fst (session_open E' rt ss)" c] stage_work_le [of "fst (session_open E' rt ss)"] by (simp split: if_splits)

lemma next_phase_work: "phase_work (phase_after E (fst (session_next E disc wt it st ss)) c) < phase_work (InSession E st d)"
proof (cases "stage_work st = 0")
  case True
  then obtain r where "st = Finished r"
    by (cases st) (auto split: if_splits)
  then show ?thesis
    by (simp add: phase_after_def)
next
  case False
  then show ?thesis
    using phase_after_work [of E "fst (session_next E disc wt it st ss)" c] session_next_work [OF False, of E disc wt it ss]
    by (simp split: if_splits)
qed

lemma session_put_work:
  assumes "i < length (sv_sessions s)" and "phase_work (phase_after E (fst p) (s_client (snd p))) < phase_work (sv_sessions s ! i)"
  shows "work_left (session_put E i p s) < work_left s"
  using sum_update_less [OF assms(1), of phase_work "phase_after E (fst p) (s_client (snd p))"] assms(2)
  by (simp add: work_left_def session_put_def split_beta)

lemma thread_step_work: "thread_step stuck s s' \<Longrightarrow> work_left s' < work_left s"
proof (induction rule: thread_step.induct)
  case (handshake i s c E)
  then show ?case
    unfolding serveClient_open_def by (intro session_put_work) (simp_all only: open_phase_work)
next
  case (session i s E st c)
  then show ?case
    unfolding serveClient_next_def by (intro session_put_work) (simp_all only: next_phase_work)
next
  case (deferred i s p)
  then show ?case
    using sum_update_less [OF deferred(1), of phase_work] by (cases p) (auto simp: work_left_def)
qed (auto simp: work_left_def Serve_accept_def Serve_count_def Serve_add_def Serve_go_def)

lemma outside_work [simp]:
  "work_left (server_UpdateRouter r s) = work_left s" "work_left (snd (Shutdown cl s)) = work_left s"
  by (simp_all add: work_left_def server_UpdateRouter_def Shutdown_def split: option.split)

interpretation dr: shrinking "thread_step stuck" work_left for stuck
  by unfold_locales (rule thread_step_work)

lemma drain_run_more: "(thread_step stuck ^^ m) s' s'' \<Longrightarrow> drain_run stuck s n s' \<Longrightarrow> drain_run stuck s (n + m) s''"
  by (induction m arbitrary: s'') (auto elim!: relpowp_Suc_E intro: drain_run.thread)

lemma drain_run_length: "drain_run stuck s0 n s \<Longrightarrow> n + work_left s \<le> work_left s0"
  by (induction rule: drain_run.induct) (auto dest!: thread_step_work)

section \<open>When no step is left\<close>

lemma step_listener:
  assumes "step s s'" and "sv_pc s = NotStarted \<longrightarrow> sv_listener s = None"
  shows "sv_pc s' = NotStarted \<longrightarrow> sv_listener s' = None"
  using assms(1)
proof cases
  case (deferred i p)
  then show ?thesis
    using assms(2) by (cases p) auto
qed (use assms(2) in \<open>auto simp: Serve_listen_def Serve_accept_def Serve_count_def Serve_add_def Serve_go_def Shutdown_def
    server_UpdateRouter_def serveClient_open_def serveClient_next_def session_put_def split: sum.splits accepted.splits option.splits prod.splits\<close>)

lemma reachable_listener:
  "reachable s0 s \<Longrightarrow> fresh s0 \<Longrightarrow> sv_pc s = NotStarted \<longrightarrow> sv_listener s = None"
proof (induction rule: reachable.induct)
  case init
  then show ?case
    by (auto simp: fresh_def server_New_def)
next
  case (more s s')
  then show ?case
    using step_listener by blast
qed

lemma thread_keeps_closed: "thread_step stuck s s' \<Longrightarrow> sv_listener s' = sv_listener s"
proof (induction rule: thread_step.induct)
  case (deferred i s p)
  then show ?case
    by (cases p) auto
qed (auto simp: Serve_accept_def Serve_count_def Serve_add_def Serve_go_def serveClient_open_def serveClient_next_def
    session_put_def split: prod.split)

lemma drain_keeps_closed: "drain_run stuck s0 n s \<Longrightarrow> sv_listener s0 = Some False \<Longrightarrow> sv_listener s = Some False"
  by (induction rule: drain_run.induct) (auto simp: thread_keeps_closed server_UpdateRouter_def Shutdown_def split: option.splits)

definition net_closed :: go_error where
  "net_closed = \<lparr>err_msg = ''use of closed network connection'', err_is = [NetErrClosed]\<rparr>"

text \<open>No step is left only if the accept loop has returned and every goroutine has finished or is stuck in its session.\<close>

lemma no_step_left:
  assumes "sv_listener s = Some False" and "sv_pc s \<noteq> NotStarted" and "\<nexists>s'. thread_step stuck s s'"
  shows "(\<exists>e. sv_pc s = Returned e)
    \<and> (\<forall>i < length (sv_sessions s). (\<exists>c. sv_sessions s ! i = Gone c)
         \<or> in_handler (sv_sessions s ! i) \<and> stuck i (sv_sessions s ! i))"
proof (intro conjI allI impI)
  have "errors_Is net_closed NetErrClosed"
    by (simp add: errors_Is_def net_closed_def)
  then show "\<exists>e. sv_pc s = Returned e"
    using assms by (cases "sv_pc s") (auto intro: thread_step.intros)
  fix i assume i: "i < length (sv_sessions s)"
  have "\<not> is_deferred (sv_sessions s ! i)"
    using assms(3) thread_step.deferred [OF i refl] by blast
  moreover have "stuck i (Running c)" if "sv_sessions s ! i = Running c" for c
    using assms(3) thread_step.handshake [OF i that] by blast
  moreover have "stuck i (InSession E st c)" if "sv_sessions s ! i = InSession E st c" for E st c
    using assms(3) thread_step.session [OF i that] by blast
  ultimately show "(\<exists>c. sv_sessions s ! i = Gone c) \<or> in_handler (sv_sessions s ! i) \<and> stuck i (sv_sessions s ! i)"
    by (cases "sv_sessions s ! i") auto
qed

text \<open>The end of a shutdown: the accept loop has returned; every goroutine has closed its connection and is gone, except those that
  are stuck in their session; gauge, wait group and tokens count exactly these; \<open>Wait\<close> can return true just if there are none.\<close>

definition settled :: "(nat \<Rightarrow> phase \<Rightarrow> bool) \<Rightarrow> 'x server \<Rightarrow> bool" where
  "settled stuck s \<longleftrightarrow> (\<exists>e. sv_pc s = Returned e)
     \<and> (\<forall>i < length (sv_sessions s). (\<exists>c. sv_sessions s ! i = Gone c \<and> closed c)
          \<or> in_handler (sv_sessions s ! i) \<and> stuck i (sv_sessions s ! i))
     \<and> (let n = many in_handler (sv_sessions s) in
          gauge s = of_nat n \<and> sv_wg s = n
          \<and> (case sv_connLimitSem s of None \<Rightarrow> True | Some (cap, k) \<Rightarrow> k = n)
          \<and> (Wait s True \<longleftrightarrow> n = 0))"

lemma Wait_True_iff: "Wait s True \<longleftrightarrow> sv_wg s = 0"
  by (auto elim: Wait.cases intro: Wait.finished)

lemma many_same: "\<forall>p \<in> set ps. P p = Q p \<Longrightarrow> many P ps = many Q ps"
  unfolding many_def by (metis filter_cong)

lemma stuck_settled:
  assumes "fresh s0" and "reachable s0 s" and "sv_listener s = Some False" and "\<nexists>s'. thread_step stuck s s'"
  shows "settled stuck s"
proof -
  have "sv_pc s \<noteq> NotStarted"
    using reachable_listener [OF assms(2,1)] assms(3) by auto
  note e = no_step_left [OF assms(3) this assms(4)]
  have c: "all_closed s" and i: "server_inv s"
    using reachable_closed [OF assms(2) fresh_closed [OF assms(1)]] reachable_inv [OF assms(2) fresh_inv [OF assms(1)]] .
  have p: "(\<exists>c. p = Gone c) \<or> in_handler p" if "p \<in> set (sv_sessions s)" for p
    using that e by (auto simp: in_set_conv_nth)
  have "holds_token p = in_handler p \<and> in_gauge p = in_handler p \<and> in_group p = in_handler p" if "p \<in> set (sv_sessions s)" for p
    using p [OF that] by (cases p) auto
  then have m: "many holds_token (sv_sessions s) = many in_handler (sv_sessions s)"
    "many in_gauge (sv_sessions s) = many in_handler (sv_sessions s)" "many in_group (sv_sessions s) = many in_handler (sv_sessions s)"
    by (auto intro!: many_same)
  have "closed_if_past (sv_sessions s ! i)" if "i < length (sv_sessions s)" for i
    using c that by (simp add: all_closed_def list_all_length)
  then have "\<forall>i < length (sv_sessions s). (\<exists>c. sv_sessions s ! i = Gone c \<and> closed c)
      \<or> in_handler (sv_sessions s ! i) \<and> stuck i (sv_sessions s ! i)"
    using e by (metis closed_if_past.simps(2))
  then show ?thesis
    using e i m by (auto simp: settled_def Let_def server_inv_def limit_ok_def Wait_True_iff split: option.splits)
qed

section \<open>The property\<close>

text \<open>C7: a shutdown comes to an end, up to the sessions that never do. Let \<open>stuck\<close> say which goroutines wait for good and at which
  stage of their session. Once the listener of a server is closed, its threads take at most
  \<open>work_left\<close> more steps, under every schedule and however often the router is replaced meanwhile; as long as the server is
  not settled one of them can take a step; and from every state on the way they do reach a settled state: the accept loop has
  returned, every goroutine that is not stuck has closed its connection and is gone, gauge, wait group and tokens count exactly the
  stuck ones, and \<open>Wait\<close> can return true just if there are none.\<close>

theorem shutdown_drains:
  assumes "fresh s0" and "reachable s0 s" and "sv_listener s = Some False" and "drain_run stuck s n s'"
  shows "n \<le> work_left s \<and> (settled stuck s' \<or> (\<exists>s''. thread_step stuck s' s''))
    \<and> (\<exists>m s''. (thread_step stuck ^^ m) s' s'' \<and> settled stuck s'')"
proof (intro conjI)
  have end_: "settled stuck s''" if "drain_run stuck s k s''" "\<nexists>s3. thread_step stuck s'' s3" for k s''
    using stuck_settled [OF assms(1) drain_run_reachable [OF that(1) assms(2)] drain_keeps_closed [OF that(1) assms(3)] that(2)] .
  show "n \<le> work_left s"
    using drain_run_length [OF assms(4)] by simp
  show "settled stuck s' \<or> (\<exists>s''. thread_step stuck s' s'')"
    using end_ [OF assms(4)] by blast
  obtain m s'' where m: "(thread_step stuck ^^ m) s' s''" "\<nexists>s3. thread_step stuck s'' s3"
    using dr.run_ends by blast
  then show "\<exists>m s''. (thread_step stuck ^^ m) s' s'' \<and> settled stuck s''"
    using end_ [OF drain_run_more [OF m(1) assms(4)] m(2)] by blast
qed

text \<open>A server that was shut down right after it had accepted a client: with a client that behaves, and with one that never sends
  a byte.\<close>

theorem shutdown_drains_witness:
  "(\<exists>m s''. (thread_step (\<lambda>i p. False) ^^ m) (snd (Shutdown None demo_token)) s'' \<and> settled (\<lambda>i p. False) s'')
   \<and> (\<exists>m s''. (thread_step (\<lambda>i p. True) ^^ m) (snd (Shutdown None demo_token)) s'' \<and> settled (\<lambda>i p. True) s'')"
proof -
  have r: "reachable demo_server (snd (Shutdown None demo_token))"
    by (rule reachable.more [OF demo_token_reachable step.shutdown])
  have l: "sv_listener (snd (Shutdown None demo_token)) = Some False"
    by (simp add: Shutdown_def demo_token_state)
  show ?thesis
    using shutdown_drains [OF demo_server_fresh r l drain_run.start] by blast
qed

end
