(* ===== verification/Relay_Steps.thy ===== *)
theory Relay_Steps
  imports Handler
begin

text \<open>
  The relay at the grain of its two goroutines, \<open>relay\<close> and \<open>copyHalf\<close> of
  \<open>internal/socks/handler.go\<close>. Each half is a thread whose steps are the single reads and writes of
  \<open>io.Copy\<close>, the metrics call, \<open>CloseWrite\<close> and the send on the channel of results; the two threads
  interleave freely. The main result is that the function \<open>Handler.relay\<close>, which runs one half after the
  other, describes every interleaving, and that every interleaving ends.
\<close>

section \<open>The threads\<close>

text \<open>Where a half is: in \<open>io.Copy\<close> with the number of writes and of bytes so far, or before one of the three
  statements that follow it, or finished.\<close>

datatype half =
    Copying nat nat
  | Finished nat "go_error option"
  | Observed "go_error option"
  | HalfClosed "go_error option"
  | Sent "go_error option"

record relay_state =
  r_client :: conn
  r_backend :: conn
  r_metrics :: collector
  r_errCh :: "go_error option list"
  r_halfC :: half
  r_halfB :: half

definition relay_start :: "conn \<Rightarrow> conn \<Rightarrow> collector \<Rightarrow> relay_state" where
  "relay_start client backend m =
     \<lparr>r_client = client, r_backend = backend, r_metrics = m, r_errCh = [], r_halfC = Copying 0 0, r_halfB = Copying 0 0\<rparr>"

text \<open>One step of a half, on the connection it reads, the one it writes, the collector and the channel.\<close>

fun copyHalf_step ::
  "(nat \<Rightarrow> nat) \<Rightarrow> string \<Rightarrow> half \<Rightarrow> conn \<times> conn \<times> collector \<times> go_error option list
     \<Rightarrow> half \<times> conn \<times> conn \<times> collector \<times> go_error option list" where
  "copyHalf_step chunk direction (Copying i n) (src, dst, m, ch) =
     (if inp src = [] then (Finished n (if inp_err src = io_EOF then None else Some (inp_err src)), src, dst, m, ch)
      else let k = chunk_len chunk i src; src' = src\<lparr>inp := drop k (inp src)\<rparr>
           in case conn_write (take k (inp src)) dst of
                (Inl e, dst') \<Rightarrow> (Finished (n + (length (outp dst') - length (outp dst))) (Some e), src', dst', m, ch)
              | (Inr _, dst') \<Rightarrow> (Copying (Suc i) (n + k), src', dst', m, ch))"
| "copyHalf_step chunk direction (Finished n err) (src, dst, m, ch) =
     (Observed err, src, dst, AddRelayBytes direction (int n) m, ch)"
| "copyHalf_step chunk direction (Observed err) (src, dst, m, ch) = (HalfClosed err, src, dst\<lparr>wclosed := True\<rparr>, m, ch)"
| "copyHalf_step chunk direction (HalfClosed err) (src, dst, m, ch) = (Sent err, src, dst, m, ch @ [err])"
| "copyHalf_step chunk direction (Sent err) st = (Sent err, st)"

fun sent :: "half \<Rightarrow> bool" where
  "sent (Sent err) = True" | "sent _ = False"

definition step_client :: "env \<Rightarrow> relay_state \<Rightarrow> relay_state" where
  "step_client E s =
     (let (h, client, backend, m, ch) = copyHalf_step (en_chunkC E) ''client_to_backend'' (r_halfC s)
            (r_client s, r_backend s, r_metrics s, r_errCh s)
      in \<lparr>r_client = client, r_backend = backend, r_metrics = m, r_errCh = ch, r_halfC = h, r_halfB = r_halfB s\<rparr>)"

definition step_backend :: "env \<Rightarrow> relay_state \<Rightarrow> relay_state" where
  "step_backend E s =
     (let (h, backend, client, m, ch) = copyHalf_step (en_chunkB E) ''backend_to_client'' (r_halfB s)
            (r_backend s, r_client s, r_metrics s, r_errCh s)
      in \<lparr>r_client = client, r_backend = backend, r_metrics = m, r_errCh = ch, r_halfC = r_halfC s, r_halfB = h\<rparr>)"

inductive relay_step :: "env \<Rightarrow> relay_state \<Rightarrow> relay_state \<Rightarrow> bool" for E where
  client: "\<not> sent (r_halfC s) \<Longrightarrow> relay_step E s (step_client E s)"
| backend: "\<not> sent (r_halfB s) \<Longrightarrow> relay_step E s (step_backend E s)"

abbreviation "relay_run E s0 n s \<equiv> (relay_step E ^^ n) s0 s"

text \<open>What \<open>relay\<close> returns once it has received both results.\<close>

definition relay_done :: "relay_state \<Rightarrow> bool" where
  "relay_done s \<longleftrightarrow> sent (r_halfC s) \<and> sent (r_halfB s)"

definition relay_result :: "env \<Rightarrow> relay_state \<Rightarrow> go_error option \<times> string" where
  "relay_result E s =
     (first_error (en_unicode E) (r_errCh s), classifyCloseType (en_unicode E) (r_errCh s ! 0) (r_errCh s ! 1))"

section \<open>Every interleaving ends\<close>

fun half_size :: "half \<Rightarrow> conn \<Rightarrow> nat" where
  "half_size (Copying i n) src = length (inp src) + 4"
| "half_size (Finished n e) src = 3"
| "half_size (Observed e) src = 2"
| "half_size (HalfClosed e) src = 1"
| "half_size (Sent e) src = 0"

definition relay_size :: "relay_state \<Rightarrow> nat" where
  "relay_size s = half_size (r_halfC s) (r_client s) + half_size (r_halfB s) (r_backend s)"

text \<open>A step of a half shortens its own work and does not touch the input of the other.\<close>

lemma copyHalf_step_size:
  assumes "copyHalf_step chunk dir h (src, dst, m, ch) = (h', src', dst', m', ch')" and "\<not> sent h"
  shows "half_size h' src' < half_size h src \<and> inp dst' = inp dst"
  using assms by (cases h) (auto simp: Let_def conn_write_def chunk_len_def split: if_splits option.splits)

lemma half_size_cong: "inp a = inp b \<Longrightarrow> half_size h a = half_size h b"
  by (cases h) auto

lemma relay_step_size: "relay_step E s s' \<Longrightarrow> relay_size s' < relay_size s"
proof (induction rule: relay_step.induct)
  case (client s)
  obtain h c b m ch where st: "copyHalf_step (en_chunkC E) ''client_to_backend'' (r_halfC s)
      (r_client s, r_backend s, r_metrics s, r_errCh s) = (h, c, b, m, ch)"
    by (metis prod.exhaust)
  show ?case
    using copyHalf_step_size [OF st client] half_size_cong [of b "r_backend s" "r_halfB s"]
    by (simp add: relay_size_def step_client_def st)
next
  case (backend s)
  obtain h c b m ch where st: "copyHalf_step (en_chunkB E) ''backend_to_client'' (r_halfB s)
      (r_backend s, r_client s, r_metrics s, r_errCh s) = (h, b, c, m, ch)"
    by (metis prod.exhaust)
  show ?case
    using copyHalf_step_size [OF st backend] half_size_cong [of c "r_client s" "r_halfC s"]
    by (simp add: relay_size_def step_backend_def st)
qed

interpretation rl: shrinking "relay_step E" relay_size for E
  by unfold_locales (rule relay_step_size)

lemma relay_progress: "relay_done s \<or> (\<exists>s'. relay_step E s s')"
  by (auto simp: relay_done_def intro: relay_step.intros)

section \<open>Every interleaving gives the sequential result\<close>

text \<open>What a half still has to do leads to its final outcome: the bytes and error of \<open>io.Copy\<close>, the input it
  leaves, and the output it makes. Only \<open>inp\<close> of the source and \<open>outp\<close>, \<open>nwr\<close> and \<open>wclosed\<close> of the destination
  take part, so the other half does not interfere.\<close>

record outcome_of_half =
  oh_bytes :: nat
  oh_err :: "go_error option"
  oh_inp :: "byte list"
  oh_outp :: "byte list"
  oh_nwr :: nat

definition arrived :: "outcome_of_half \<Rightarrow> conn \<Rightarrow> conn \<Rightarrow> bool" where
  "arrived f src dst \<longleftrightarrow> inp src = oh_inp f \<and> outp dst = oh_outp f \<and> nwr dst = oh_nwr f"

fun heads_for :: "(nat \<Rightarrow> nat) \<Rightarrow> outcome_of_half \<Rightarrow> half \<Rightarrow> conn \<Rightarrow> conn \<Rightarrow> bool" where
  "heads_for chunk f (Copying i n) src dst \<longleftrightarrow>
     io_copy chunk i src dst n = ((oh_bytes f, oh_err f), src\<lparr>inp := oh_inp f\<rparr>, dst\<lparr>outp := oh_outp f, nwr := oh_nwr f\<rparr>)"
| "heads_for chunk f (Finished n e) src dst \<longleftrightarrow> n = oh_bytes f \<and> e = oh_err f \<and> arrived f src dst"
| "heads_for chunk f (Observed e) src dst \<longleftrightarrow> e = oh_err f \<and> arrived f src dst"
| "heads_for chunk f (HalfClosed e) src dst \<longleftrightarrow> e = oh_err f \<and> arrived f src dst \<and> wclosed dst"
| "heads_for chunk f (Sent e) src dst \<longleftrightarrow> e = oh_err f \<and> arrived f src dst \<and> wclosed dst"

lemma io_copy_other:
  assumes "io_copy chunk i src dst n = (r, src\<lparr>inp := x\<rparr>, dst\<lparr>outp := y, nwr := z\<rparr>)"
  shows "io_copy chunk i (src\<lparr>outp := o1, nwr := k1, wclosed := w1\<rparr>) (dst\<lparr>inp := i2\<rparr>) n
    = (r, (src\<lparr>outp := o1, nwr := k1, wclosed := w1\<rparr>)\<lparr>inp := x\<rparr>, (dst\<lparr>inp := i2\<rparr>)\<lparr>outp := y, nwr := z\<rparr>)"
  using io_copy_frame [OF assms, where ?o1.0 = o1 and ?k1.0 = k1 and ?w1.0 = w1 and ?i2.0 = i2] by simp

lemma heads_for_other:
  assumes "heads_for chunk f h src dst"
  shows "heads_for chunk f h (src\<lparr>outp := o1, nwr := k1, wclosed := w1\<rparr>) (dst\<lparr>inp := i2\<rparr>)"
  using assms by (cases h) (auto simp: arrived_def dest: io_copy_other)

lemma conn_inp_inject: "(c :: conn)\<lparr>inp := x\<rparr> = c\<lparr>inp := y\<rparr> \<longleftrightarrow> x = y" "c = c\<lparr>inp := y\<rparr> \<longleftrightarrow> inp c = y"
  by (cases c; simp)+

lemma conn_outp_inject:
  "(c :: conn)\<lparr>outp := x, nwr := k\<rparr> = c\<lparr>outp := y, nwr := j\<rparr> \<longleftrightarrow> x = y \<and> k = j"
  "c = c\<lparr>outp := y, nwr := j\<rparr> \<longleftrightarrow> outp c = y \<and> nwr c = j"
  by (cases c; simp)+

lemmas conn_inject = conn_inp_inject conn_outp_inject

text \<open>A step of the half itself.\<close>

lemma heads_for_step:
  assumes "heads_for chunk f h src dst" and "copyHalf_step chunk dir h (src, dst, m, ch) = (h', src', dst', m', ch')"
  shows "heads_for chunk f h' src' dst'"
proof (cases h)
  case (Copying i n)
  note io = assms(1) [unfolded Copying heads_for.simps io_copy.simps [of chunk i]]
  show ?thesis
  proof (cases "inp src = []")
    case True
    then show ?thesis
      using io assms(2) Copying by (auto simp: arrived_def conn_inject)
  next
    case False
    define k where "k = chunk_len chunk i src"
    obtain res dst1 where w: "conn_write (take k (inp src)) dst = (res, dst1)"
      by fastforce
    obtain o1 k1 where d: "dst1 = dst\<lparr>outp := o1, nwr := k1\<rparr>"
      using w by (auto simp: conn_write_def split: option.splits)
    show ?thesis
    proof (cases res)
      case (Inl e)
      then show ?thesis
        using io assms(2) Copying False w d by (auto simp: Let_def k_def [symmetric] arrived_def conn_inject)
    next
      case (Inr x)
      then show ?thesis
        using io assms(2) Copying False w d by (auto simp: Let_def k_def [symmetric])
    qed
  qed
qed (use assms in \<open>auto simp: arrived_def\<close>)

fun observed :: "half \<Rightarrow> bool" where
  "observed (Copying i n) = False" | "observed (Finished n e) = False" | "observed _ = True"

definition bytes_in :: "collector \<Rightarrow> string \<Rightarrow> 64 word option" where
  "bytes_in m d = map_option (\<lambda>x. gm_val (relayBytes x) d) m"

definition share :: "string \<Rightarrow> outcome_of_half \<Rightarrow> half \<Rightarrow> string \<Rightarrow> 64 word" where
  "share dir f h d = (if observed h \<and> d = dir then of_nat (oh_bytes f) else 0)"

lemma bytes_in_AddRelayBytes:
  "bytes_in (AddRelayBytes dir (int n) m) d = map_option (\<lambda>v. v + (if d = dir then of_nat n else 0)) (bytes_in m d)"
  by (cases m) (auto simp: bytes_in_def AddRelayBytes_def cm.val_add)

lemma copyHalf_step_effect:
  assumes "copyHalf_step chunk dir h (src, dst, m, ch) = (h', src', dst', m', ch')" and "heads_for chunk f h src dst"
    and "\<not> sent h"
  shows "src' = src\<lparr>inp := inp src'\<rparr>" and "dst' = dst\<lparr>outp := outp dst', nwr := nwr dst', wclosed := wclosed dst'\<rparr>"
    and "ch' = ch @ (if sent h' then [oh_err f] else [])"
    and "map_option (\<lambda>v. v + share dir f h d) (bytes_in m' d) = map_option (\<lambda>v. v + share dir f h' d) (bytes_in m d)"
  using assms
  by (cases h; auto simp: Let_def conn_write_def share_def bytes_in_AddRelayBytes option.map_comp comp_def
      split: if_splits option.splits)+

text \<open>The invariant of a run: both halves head for their outcomes, the rest of the connections is as at the start, the
  channel holds the results that were sent, the collector has the bytes that were observed.\<close>

definition chan_ok :: "go_error option \<Rightarrow> go_error option \<Rightarrow> bool \<Rightarrow> bool \<Rightarrow> go_error option list \<Rightarrow> bool" where
  "chan_ok eC eB sC sB ch \<longleftrightarrow>
     (if sC \<and> sB then ch = [eC, eB] \<or> ch = [eB, eC] else ch = (if sC then [eC] else []) @ (if sB then [eB] else []))"

definition same_rest :: "conn \<Rightarrow> conn \<Rightarrow> bool" where
  "same_rest c0 c \<longleftrightarrow> c = c0\<lparr>inp := inp c, outp := outp c, nwr := nwr c, wclosed := wclosed c\<rparr>"

definition relay_inv :: "env \<Rightarrow> conn \<Rightarrow> conn \<Rightarrow> collector \<Rightarrow> outcome_of_half \<Rightarrow> outcome_of_half \<Rightarrow> relay_state \<Rightarrow> bool" where
  "relay_inv E c b m fC fB s \<longleftrightarrow>
     heads_for (en_chunkC E) fC (r_halfC s) (r_client s) (r_backend s)
     \<and> heads_for (en_chunkB E) fB (r_halfB s) (r_backend s) (r_client s)
     \<and> same_rest c (r_client s) \<and> same_rest b (r_backend s)
     \<and> chan_ok (oh_err fC) (oh_err fB) (sent (r_halfC s)) (sent (r_halfB s)) (r_errCh s)
     \<and> (\<forall>d. bytes_in (r_metrics s) d = map_option (\<lambda>v. v + share ''client_to_backend'' fC (r_halfC s) d
            + share ''backend_to_client'' fB (r_halfB s) d) (bytes_in m d))"

lemma same_rest_inp: "same_rest c0 c \<Longrightarrow> same_rest c0 (c\<lparr>inp := x\<rparr>)"
  by (cases c0, cases c) (auto simp: same_rest_def)

lemma same_rest_outp: "same_rest c0 c \<Longrightarrow> same_rest c0 (c\<lparr>outp := x, nwr := k, wclosed := w\<rparr>)"
  by (cases c0, cases c) (auto simp: same_rest_def)

lemma bytes_step:
  assumes "map_option (\<lambda>v. v + (p :: 64 word)) x' = map_option (\<lambda>v. v + p') x" and "x = map_option (\<lambda>v. v + p + q) y"
  shows "x' = map_option (\<lambda>v. v + p' + q) y"
  using assms by (cases y; cases x'; cases x) (auto simp: algebra_simps)

lemma relay_step_inv:
  assumes "relay_step E s s'" and i: "relay_inv E c b m fC fB s"
  shows "relay_inv E c b m fC fB s'"
  using assms(1)
proof cases
  case client
  obtain h c1 b1 m1 ch where st: "copyHalf_step (en_chunkC E) ''client_to_backend'' (r_halfC s)
      (r_client s, r_backend s, r_metrics s, r_errCh s) = (h, c1, b1, m1, ch)"
    by (metis prod.exhaust)
  have hd: "heads_for (en_chunkC E) fC (r_halfC s) (r_client s) (r_backend s)"
    and ot: "heads_for (en_chunkB E) fB (r_halfB s) (r_backend s) (r_client s)"
    using i by (simp_all add: relay_inv_def)
  note eff = copyHalf_step_effect [OF st hd client(2)]
  have "heads_for (en_chunkB E) fB (r_halfB s) b1 c1"
    using heads_for_other [OF ot] by (subst eff(1), subst eff(2))
  moreover have "same_rest c c1" "same_rest b b1"
    using i by (subst eff(1) eff(2), simp add: relay_inv_def same_rest_inp same_rest_outp)+
  moreover have "chan_ok (oh_err fC) (oh_err fB) (sent h) (sent (r_halfB s)) ch"
    using i client(2) eff(3) by (auto simp: relay_inv_def chan_ok_def)
  moreover have "bytes_in m1 d = map_option (\<lambda>v. v + share ''client_to_backend'' fC h d
            + share ''backend_to_client'' fB (r_halfB s) d) (bytes_in m d)" for d
    using bytes_step [OF eff(4)] i by (simp add: relay_inv_def)
  ultimately show ?thesis
    using heads_for_step [OF hd st] by (simp add: relay_inv_def client step_client_def st)
next
  case backend
  obtain h c1 b1 m1 ch where st: "copyHalf_step (en_chunkB E) ''backend_to_client'' (r_halfB s)
      (r_backend s, r_client s, r_metrics s, r_errCh s) = (h, b1, c1, m1, ch)"
    by (metis prod.exhaust)
  have hd: "heads_for (en_chunkB E) fB (r_halfB s) (r_backend s) (r_client s)"
    and ot: "heads_for (en_chunkC E) fC (r_halfC s) (r_client s) (r_backend s)"
    using i by (simp_all add: relay_inv_def)
  note eff = copyHalf_step_effect [OF st hd backend(2)]
  have "heads_for (en_chunkC E) fC (r_halfC s) c1 b1"
    using heads_for_other [OF ot] by (subst eff(1), subst eff(2))
  moreover have "same_rest c c1" "same_rest b b1"
    using i by (subst eff(1) eff(2), simp add: relay_inv_def same_rest_inp same_rest_outp)+
  moreover have "chan_ok (oh_err fC) (oh_err fB) (sent (r_halfC s)) (sent h) ch"
    using i backend(2) eff(3) by (auto simp: relay_inv_def chan_ok_def)
  moreover have "bytes_in m1 d = map_option (\<lambda>v. v + share ''client_to_backend'' fC (r_halfC s) d
            + share ''backend_to_client'' fB h d) (bytes_in m d)" for d
    using bytes_step [OF eff(4), where q = "share ''client_to_backend'' fC (r_halfC s) d" and y = "bytes_in m d"] i
    by (simp add: relay_inv_def add.assoc add.commute add.left_commute)
  ultimately show ?thesis
    using heads_for_step [OF hd st] by (simp add: relay_inv_def backend step_backend_def st)
qed

lemma relay_run_inv: "relay_run E s0 n s \<Longrightarrow> relay_inv E c b m fC fB s0 \<Longrightarrow> relay_inv E c b m fC fB s"
  by (induction n arbitrary: s) (auto elim!: relpowp_Suc_E intro: relay_step_inv)

text \<open>The outcome of the half that copies from \<open>src\<close> to \<open>dst\<close>.\<close>

definition half_outcome :: "(nat \<Rightarrow> nat) \<Rightarrow> conn \<Rightarrow> conn \<Rightarrow> outcome_of_half" where
  "half_outcome chunk src dst =
     (case io_copy chunk 0 src dst 0 of ((n, e), src', dst') \<Rightarrow>
        \<lparr>oh_bytes = n, oh_err = e, oh_inp = inp src', oh_outp = outp dst', oh_nwr = nwr dst'\<rparr>)"

lemma heads_for_start: "heads_for chunk (half_outcome chunk src dst) (Copying 0 0) src dst"
proof -
  obtain n e src' dst' where io: "io_copy chunk 0 src dst 0 = ((n, e), src', dst')"
    by (metis prod.exhaust)
  have "src' = src\<lparr>inp := inp src'\<rparr>" and "dst' = dst\<lparr>outp := outp dst', nwr := nwr dst'\<rparr>"
    using io_copy_frame [OF io] by blast+
  then show ?thesis
    by (simp add: half_outcome_def io)
qed

abbreviation "outcomeC E c b \<equiv> half_outcome (en_chunkC E) c b"
abbreviation "outcomeB E c b \<equiv> half_outcome (en_chunkB E) b c"

lemma relay_start_inv: "relay_inv E c b m (outcomeC E c b) (outcomeB E c b) (relay_start c b m)"
  using heads_for_start by (simp add: relay_inv_def relay_start_def same_rest_def chan_ok_def share_def option.map_ident)

text \<open>The sequential relay in terms of the outcomes.\<close>

lemma relay_outcomes:
  "\<exists>m'. relay E c b m =
     ((first_error (en_unicode E) errs, classifyCloseType (en_unicode E) (errs ! 0) (errs ! 1)),
      c\<lparr>inp := oh_inp fC, outp := oh_outp fB, nwr := oh_nwr fB, wclosed := True\<rparr>,
      b\<lparr>inp := oh_inp fB, outp := oh_outp fC, nwr := oh_nwr fC, wclosed := True\<rparr>, m')
   \<and> (\<forall>d. bytes_in m' d = map_option (\<lambda>v. v + (if d = ''client_to_backend'' then of_nat (oh_bytes fC) else 0)
          + (if d = ''backend_to_client'' then of_nat (oh_bytes fB) else 0)) (bytes_in m d))"
  if "fC = outcomeC E c b" and "fB = outcomeB E c b"
    and "errs = (if en_clientFirst E then [oh_err fC, oh_err fB] else [oh_err fB, oh_err fC])"
proof -
  obtain nC eC c1 b1 where C: "io_copy (en_chunkC E) 0 c b 0 = ((nC, eC), c1, b1)"
    by (metis prod.exhaust)
  obtain nB eB b2 c2 where B: "io_copy (en_chunkB E) 0 b c 0 = ((nB, eB), b2, c2)"
    by (metis prod.exhaust)
  have f: "c2 = c\<lparr>outp := outp c2, nwr := nwr c2\<rparr>" "b2 = b\<lparr>inp := inp b2\<rparr>"
    using io_copy_frame [OF B] by blast+
  have "c2\<lparr>inp := inp c1, wclosed := True\<rparr> = c\<lparr>inp := inp c1, outp := outp c2, nwr := nwr c2, wclosed := True\<rparr>"
    by (subst f(1)) simp
  moreover have "b2\<lparr>outp := outp b1, nwr := nwr b1, wclosed := True\<rparr> = b\<lparr>inp := inp b2, outp := outp b1, nwr := nwr b1, wclosed := True\<rparr>"
    by (subst f(2)) simp
  ultimately show ?thesis
    unfolding that
    by (simp add: relay_def copyHalf_def C halves_commute(1) [OF C B] half_outcome_def B bytes_in_AddRelayBytes
        option.map_comp comp_def)
qed

section \<open>The property\<close>

text \<open>C6: the sequential relay describes every interleaving of the two goroutines. From the start, every run of
  single reads, writes and statements has at most as many steps as there are bytes to relay plus eight, and can
  go on until both halves have sent their result. Then the returned error and close type and both connections are those
  of \<open>relay\<close> for one of the two orders in which the results can arrive, and the collector has the same bytes
  per direction.\<close>

theorem relay_interleavings:
  assumes "relay_run E (relay_start c b m) n s"
  shows "n \<le> length (inp c) + length (inp b) + 8 \<and> (relay_done s \<or> (\<exists>s'. relay_step E s s'))
    \<and> (relay_done s \<longrightarrow> (\<exists>v m'. relay (E\<lparr>en_clientFirst := v\<rparr>) c b m = (relay_result E s, r_client s, r_backend s, m')
         \<and> (\<forall>d. bytes_in (r_metrics s) d = bytes_in m' d)))"
proof (intro conjI impI)
  show "n \<le> length (inp c) + length (inp b) + 8"
    using rl.run_bounded [OF assms] by (simp add: relay_size_def relay_start_def)
  show "relay_done s \<or> (\<exists>s'. relay_step E s s')"
    by (rule relay_progress)
  assume "relay_done s"
  then obtain eC eB where h: "r_halfC s = Sent eC" "r_halfB s = Sent eB"
    by (auto simp: relay_done_def elim!: sent.elims)
  let ?fC = "outcomeC E c b" and ?fB = "outcomeB E c b"
  have i: "relay_inv E c b m ?fC ?fB s"
    using relay_run_inv [OF assms relay_start_inv] .
  define v where "v = (r_errCh s = [oh_err ?fC, oh_err ?fB])"
  have e: "r_errCh s = (if v then [oh_err ?fC, oh_err ?fB] else [oh_err ?fB, oh_err ?fC])"
    using i h by (auto simp: relay_inv_def chan_ok_def v_def)
  have "r_client s = c\<lparr>inp := oh_inp ?fC, outp := oh_outp ?fB, nwr := oh_nwr ?fB, wclosed := True\<rparr>"
    "r_backend s = b\<lparr>inp := oh_inp ?fB, outp := oh_outp ?fC, nwr := oh_nwr ?fC, wclosed := True\<rparr>"
    using i h by (auto simp: relay_inv_def same_rest_def arrived_def)
  moreover obtain m' where "relay (E\<lparr>en_clientFirst := v\<rparr>) c b m = ((first_error (en_unicode E) (r_errCh s),
        classifyCloseType (en_unicode E) (r_errCh s ! 0) (r_errCh s ! 1)),
      c\<lparr>inp := oh_inp ?fC, outp := oh_outp ?fB, nwr := oh_nwr ?fB, wclosed := True\<rparr>,
      b\<lparr>inp := oh_inp ?fB, outp := oh_outp ?fC, nwr := oh_nwr ?fC, wclosed := True\<rparr>, m')"
    and "\<forall>d. bytes_in (r_metrics s) d = bytes_in m' d"
    using relay_outcomes [of ?fC "E\<lparr>en_clientFirst := v\<rparr>" c b ?fB "r_errCh s" m] e i h
    by (auto simp: relay_inv_def share_def)
  ultimately show "\<exists>v m'. relay (E\<lparr>en_clientFirst := v\<rparr>) c b m = (relay_result E s, r_client s, r_backend s, m')
         \<and> (\<forall>d. bytes_in (r_metrics s) d = bytes_in m' d)"
    by (intro exI [of _ v] exI [of _ m']) (simp add: relay_result_def)
qed

theorem relay_interleavings_witness:
  "\<exists>n s. relay_run demo_env (relay_start (demo_conn [1, 2]) (demo_conn [7]) NewCollector) n s \<and> relay_done s \<and> n \<le> 11
     \<and> outp (r_client s) = [7] \<and> outp (r_backend s) = [1, 2]"
proof -
  obtain n s where r: "relay_run demo_env (relay_start (demo_conn [1, 2]) (demo_conn [7]) NewCollector) n s" "relay_done s"
    using rl.run_ends [of demo_env "relay_start (demo_conn [1, 2]) (demo_conn [7]) NewCollector"] relay_progress by metis
  obtain v m' where "relay (demo_env\<lparr>en_clientFirst := v\<rparr>) (demo_conn [1, 2]) (demo_conn [7]) NewCollector
      = (relay_result demo_env s, r_client s, r_backend s, m')" and n: "n \<le> 11"
    using relay_interleavings [OF r(1)] r(2) by (auto simp: demo_conn_def)
  then have "outp (r_client s) = [7] \<and> outp (r_backend s) = [1, 2]"
    using relay_all [of "demo_conn [1, 2]" "demo_conn [7]" "demo_env\<lparr>en_clientFirst := v\<rparr>" NewCollector]
    by (auto simp: demo_conn_def)
  then show ?thesis
    using r n by blast
qed

end
