(* ===== verification/Dialing.thy ===== *)
theory Dialing
  imports Handler
begin

text \<open>
  Many sessions dial at once. \<open>DialRoute\<close> of \<open>internal/socks/handler.go\<close> and \<open>Pick\<close> of
  \<open>internal/router/pool.go\<close> at the grain of their shared accesses: taking a token, reading the router
  pointer, advancing the counter of the pool, one load of an alive flag, the dial, giving the token
  back. Router objects live in a store, since a dial keeps the object it has read while a reload installs another,
  and the old object's health checker may still write to it. Threads, reloads and health reports interleave
  freely.
\<close>

section \<open>State\<close>

datatype dial_pc =
    Entered string
  | Holding string
  | Picking string nat
  | Scanning string nat string "64 word" nat nat
  | Dialling string string
  | Leaving "backend_conn result" string
  | DialDone "backend_conn result" string

text \<open>\<open>Scanning h rp key start i k\<close>: the loop of \<open>Pick\<close> on the pool \<open>key\<close> of router \<open>rp\<close>, before iteration \<open>i\<close>
  with \<open>k\<close> iterations left.\<close>

record dialing =
  dg_heap :: "Router list"
  dg_cur :: nat
  dg_dialTimeout :: int
  dg_keepAlive :: int
  dg_sem :: sem
  dg_dials :: "(string \<times> string) list"
  dg_rejected :: "conn list"
  dg_threads :: "dial_pc list"

definition dialing_start :: "Router \<Rightarrow> int \<Rightarrow> int \<Rightarrow> int \<Rightarrow> dialing" where
  "dialing_start r dialTimeout keepAlive maxInflightDials =
     \<lparr>dg_heap = [r], dg_cur = 0, dg_dialTimeout = dialTimeout, dg_keepAlive = keepAlive,
      dg_sem = sem_make maxInflightDials, dg_dials = [], dg_rejected = [], dg_threads = []\<rparr>"

definition pool_at :: "dialing \<Rightarrow> nat \<Rightarrow> string \<Rightarrow> pool option" where
  "pool_at s rp key = gm_get (pools (dg_heap s ! rp)) key"

definition put_pool :: "nat \<Rightarrow> string \<Rightarrow> pool \<Rightarrow> dialing \<Rightarrow> dialing" where
  "put_pool rp key p s =
     s\<lparr>dg_heap := (dg_heap s)[rp := (dg_heap s ! rp)\<lparr>pools := gm_put key p (pools (dg_heap s ! rp))\<rparr>]\<rparr>"

section \<open>Steps\<close>

fun dial_next :: "unicode \<Rightarrow> (string \<Rightarrow> int \<Rightarrow> dialled result) \<Rightarrow> dial_pc \<times> dialing \<Rightarrow> dial_pc \<times> dialing" where
  "dial_next u dial (Entered h, s) =
     (case sem_try (dg_sem s) of
        None \<Rightarrow> (DialDone (Inl (errors_New (''dial inflight limit reached for host '' @ Quote (uc_print u) h))) [], s)
      | Some q \<Rightarrow> (Holding h, s\<lparr>dg_sem := q\<rparr>))"
| "dial_next u dial (Holding h, s) = (Picking h (dg_cur s), s)"
| "dial_next u dial (Picking h rp, s) =
     (let key = normalizeHost u (socks_normalizeHost u h)
      in case pool_at s rp key of
           None \<Rightarrow> (Leaving (Inl (wrap_pick_error u h err_RouteNotFound)) [], s)
         | Some p \<Rightarrow> (Scanning h rp key ((rr p + 1) - 1) 0 (length (backends p)), put_pool rp key (p\<lparr>rr := rr p + 1\<rparr>) s))"
| "dial_next u dial (Scanning h rp key start i 0, s) = (Leaving (Inl (wrap_pick_error u h err_NoAliveBackends)) [], s)"
| "dial_next u dial (Scanning h rp key start i (Suc k), s) =
     (case pool_at s rp key of
        None \<Rightarrow> (Leaving (Inl (wrap_pick_error u h err_NoAliveBackends)) [], s)
      | Some p \<Rightarrow>
          let b = backends p ! unat ((start + of_nat i) mod of_nat (length (backends p)))
          in if alive b = 1 then (Dialling h (address b), s) else (Scanning h rp key start (Suc i) k, s))"
| "dial_next u dial (Dialling h target, s) =
     (let s' = s\<lparr>dg_dials := dg_dials s @ [(h, target)]\<rparr>
      in case dial target (dg_dialTimeout s) of
           Inl e \<Rightarrow> (Leaving (Inl (errorf_w (''dial backend '' @ Quote (uc_print u) target @ '' for host ''
                      @ Quote (uc_print u) h) e)) target, s')
         | Inr (NotTcp c) \<Rightarrow> (Leaving (Inl (errors_New (''backend connection for '' @ Quote (uc_print u) target
                      @ '' is not TCP''))) target, s'\<lparr>dg_rejected := dg_rejected s' @ [c\<lparr>closed := True\<rparr>]\<rparr>)
         | Inr (TcpConn b) \<Rightarrow> (Leaving (Inr b) target, s'))"
| "dial_next u dial (Leaving res target, s) = (DialDone res target, s\<lparr>dg_sem := sem_release (dg_sem s)\<rparr>)"
| "dial_next u dial (DialDone res target, s) = (DialDone res target, s)"

fun dial_over :: "dial_pc \<Rightarrow> bool" where
  "dial_over (DialDone res target) = True" | "dial_over _ = False"

definition install_router :: "Router \<Rightarrow> dialing \<Rightarrow> dialing" where
  "install_router r s = s\<lparr>dg_heap := dg_heap s @ [r], dg_cur := length (dg_heap s)\<rparr>"

definition health_report :: "unicode \<Rightarrow> nat \<Rightarrow> string \<Rightarrow> string \<Rightarrow> bool \<Rightarrow> dialing \<Rightarrow> dialing" where
  "health_report u rp host addr v s = s\<lparr>dg_heap := (dg_heap s)[rp := snd (SetBackendAlive u (dg_heap s ! rp) host addr v)]\<rparr>"

text \<open>One step of the system. \<open>ok\<close> restricts the routers that are ever installed.\<close>

inductive dial_step :: "unicode \<Rightarrow> (Router \<Rightarrow> bool) \<Rightarrow> dialing \<Rightarrow> dialing \<Rightarrow> bool" for u ok where
  spawn: "dial_step u ok s (s\<lparr>dg_threads := dg_threads s @ [Entered h]\<rparr>)"
| thread: "t < length (dg_threads s) \<Longrightarrow> \<not> dial_over (dg_threads s ! t) \<Longrightarrow>
    dial_next u dial (dg_threads s ! t, s) = (pc, s') \<Longrightarrow> dial_step u ok s (s'\<lparr>dg_threads := (dg_threads s)[t := pc]\<rparr>)"
| reload: "ok r \<Longrightarrow> dial_step u ok s (install_router r s)"
| health: "rp < length (dg_heap s) \<Longrightarrow> dial_step u ok s (health_report u rp host addr v s)"

inductive dial_run :: "unicode \<Rightarrow> (Router \<Rightarrow> bool) \<Rightarrow> dialing \<Rightarrow> dialing \<Rightarrow> bool" for u ok s0 where
  refl: "dial_run u ok s0 s0"
| step: "dial_run u ok s0 s \<Longrightarrow> dial_step u ok s s' \<Longrightarrow> dial_run u ok s0 s'"

lemma dial_run_trans: "dial_run u ok s1 s2 \<Longrightarrow> dial_run u ok s0 s1 \<Longrightarrow> dial_run u ok s0 s2"
  by (induction rule: dial_run.induct) (auto intro: dial_run.step)

section \<open>Tokens\<close>

fun holds_dial_token :: "dial_pc \<Rightarrow> bool" where
  "holds_dial_token (Entered h) = False" | "holds_dial_token (DialDone res target) = False" | "holds_dial_token _ = True"

definition dials_in_flight :: "dialing \<Rightarrow> nat" where
  "dials_in_flight s = length (filter holds_dial_token (dg_threads s))"

definition tokens_ok :: "dialing \<Rightarrow> bool" where
  "tokens_ok s \<longleftrightarrow> (case dg_sem s of None \<Rightarrow> True | Some (cap, n) \<Rightarrow> n = dials_in_flight s \<and> n \<le> cap)"

text \<open>The store and the threads are the only things a step changes besides tokens and history.\<close>

lemma dial_next_threads: "dial_next u dial (pc, s) = (pc', s') \<Longrightarrow> dg_threads s' = dg_threads s"
  by (cases "(u, dial, pc, s)" rule: dial_next.cases)
    (auto simp: Let_def put_pool_def split: option.splits sum.splits dialled.splits if_splits)

lemma dial_next_sem:
  assumes "dial_next u dial (pc, s) = (pc', s')" and "\<not> dial_over pc"
  shows "case dg_sem s of None \<Rightarrow> dg_sem s' = None
    | Some (cap, n) \<Rightarrow> dg_sem s' = Some (cap, n + of_bool (holds_dial_token pc') - of_bool (holds_dial_token pc))
        \<and> (holds_dial_token pc' \<and> \<not> holds_dial_token pc \<longrightarrow> n < cap)"
proof (cases "(u, dial, pc, s)" rule: dial_next.cases)
  case (1 u1 dial1 h s1)
  then show ?thesis
    using assms by (auto split: option.splits if_splits)
qed (use assms in \<open>auto simp: Let_def put_pool_def split: option.splits sum.splits dialled.splits if_splits\<close>)

lemma dial_step_tokens:
  assumes "dial_step u ok s s'" and "tokens_ok s"
  shows "tokens_ok s'"
  using assms(1)
proof cases
  case (thread t dial pc s1)
  note sem = dial_next_sem [OF thread(4,3)]
  have c: "dials_in_flight s' + of_bool (holds_dial_token (dg_threads s ! t)) = dials_in_flight s + of_bool (holds_dial_token pc)"
    using length_filter_update [OF thread(2), of holds_dial_token pc] thread(1) by (simp add: dials_in_flight_def)
  show ?thesis
  proof (cases "dg_sem s")
    case None
    then show ?thesis
      using sem thread(1) by (simp add: tokens_ok_def)
  next
    case (Some q)
    obtain cap n where q: "q = (cap, n)"
      by fastforce
    show ?thesis
      using sem thread(1) Some q c assms(2) by (cases "holds_dial_token pc"; cases "holds_dial_token (dg_threads s ! t)") (auto simp: tokens_ok_def)
  qed
qed (use assms(2) in \<open>auto simp: tokens_ok_def dials_in_flight_def install_router_def health_report_def split: option.splits\<close>)

lemma dial_run_tokens: "dial_run u ok s0 s \<Longrightarrow> tokens_ok s0 \<Longrightarrow> tokens_ok s"
  by (induction rule: dial_run.induct) (auto intro: dial_step_tokens)

section \<open>The store\<close>

text \<open>Pointers stay valid: the current router and those the threads hold are objects of the store.\<close>

fun router_ptr :: "dial_pc \<Rightarrow> nat option" where
  "router_ptr (Picking h rp) = Some rp" | "router_ptr (Scanning h rp key start i k) = Some rp" | "router_ptr _ = None"

definition ptrs_ok :: "dialing \<Rightarrow> bool" where
  "ptrs_ok s \<longleftrightarrow> dg_cur s < length (dg_heap s)
     \<and> (\<forall>pc \<in> set (dg_threads s). \<forall>rp. router_ptr pc = Some rp \<longrightarrow> rp < length (dg_heap s))"

lemma dial_next_ptrs:
  assumes "dial_next u dial (pc, s) = (pc', s')"
  shows "length (dg_heap s') = length (dg_heap s) \<and> dg_cur s' = dg_cur s
    \<and> (\<forall>rp. router_ptr pc' = Some rp \<longrightarrow> router_ptr pc = Some rp \<or> rp = dg_cur s)"
  using assms
  by (cases "(u, dial, pc, s)" rule: dial_next.cases)
    (auto simp: Let_def put_pool_def split: option.splits sum.splits dialled.splits if_splits)

lemma dial_step_ptrs:
  assumes "dial_step u ok s s'" and "ptrs_ok s"
  shows "ptrs_ok s'"
  using assms(1)
proof cases
  case (thread t dial pc s1)
  have "rp < length (dg_heap s)" if "router_ptr pc = Some rp" for rp
    using dial_next_ptrs [OF thread(4)] that assms(2) thread(2) by (fastforce simp: ptrs_ok_def)
  then show ?thesis
    using dial_next_ptrs [OF thread(4)] assms(2) thread(1)
    by (auto simp: ptrs_ok_def dest!: set_update_subset_insert [THEN subsetD])
next
  case (reload r)
  then show ?thesis
    using assms(2) by (fastforce simp: ptrs_ok_def install_router_def)
qed (use assms(2) in \<open>auto simp: ptrs_ok_def health_report_def\<close>)

text \<open>A pool of the store keeps its addresses in every step; only flags and the counter change.\<close>

definition router_addrs :: "Router \<Rightarrow> string \<Rightarrow> string list option" where
  "router_addrs r key = map_option (\<lambda>p. map address (backends p)) (gm_get (pools r) key)"

abbreviation "addresses_at s rp key \<equiv> router_addrs (dg_heap s ! rp) key"

lemma swap_alive_addresses: "swap_alive a w bs = Some (c, bs') \<Longrightarrow> map address bs' = map address bs"
  by (induction bs arbitrary: bs') (auto split: if_splits)

lemma SetBackendAlive_addresses: "router_addrs (snd (SetBackendAlive u r host a v)) key = router_addrs r key"
  by (auto simp: router_addrs_def SetBackendAlive_def Let_def gm.get_put dest: swap_alive_addresses split: option.splits)

lemma nth_update_read: "j < length xs \<Longrightarrow> xs[i := x] ! j = (if i = j then x else xs ! j)"
  by (cases "i = j") simp_all

lemma dial_next_addresses:
  assumes "dial_next u dial (pc, s) = (pc', s')" and "rp < length (dg_heap s)"
  shows "addresses_at s' rp key = addresses_at s rp key"
  using assms
  by (cases "(u, dial, pc, s)" rule: dial_next.cases)
    (auto simp: Let_def put_pool_def router_addrs_def pool_at_def gm.get_put nth_update_read
      split: option.splits sum.splits dialled.splits if_splits)

lemma dial_step_addresses:
  assumes "dial_step u ok s s'" and "rp < length (dg_heap s)"
  shows "rp < length (dg_heap s') \<and> addresses_at s' rp key = addresses_at s rp key"
  using assms(1)
proof cases
  case (thread t dial pc s1)
  show ?thesis
    using dial_next_addresses [OF thread(4) assms(2)] dial_next_ptrs [OF thread(4)] assms(2) thread(1) by simp
qed (use assms(2) in \<open>auto simp: install_router_def health_report_def nth_append
    nth_update_read SetBackendAlive_addresses\<close>)

section \<open>Where a dial goes\<close>

text \<open>\<open>permits A r\<close>: every pool of \<open>r\<close> holds only addresses that \<open>A\<close> allows for its host.\<close>

definition permits :: "(string \<Rightarrow> string set) \<Rightarrow> Router \<Rightarrow> bool" where
  "permits A r \<longleftrightarrow> (\<forall>key as. router_addrs r key = Some as \<longrightarrow> set as \<subseteq> A key \<and> as \<noteq> [] \<and> length as < 2 ^ 64)"

abbreviation "dial_key u h \<equiv> normalizeHost u (socks_normalizeHost u h)"

fun target_ok :: "unicode \<Rightarrow> (string \<Rightarrow> string set) \<Rightarrow> dial_pc \<Rightarrow> bool" where
  "target_ok u A (Scanning h rp key start i k) \<longleftrightarrow> key = dial_key u h"
| "target_ok u A (Dialling h target) \<longleftrightarrow> target \<in> A (dial_key u h)"
| "target_ok u A _ \<longleftrightarrow> True"

definition dials_ok :: "unicode \<Rightarrow> (string \<Rightarrow> string set) \<Rightarrow> dialing \<Rightarrow> bool" where
  "dials_ok u A s \<longleftrightarrow> ptrs_ok s \<and> (\<forall>r \<in> set (dg_heap s). permits A r) \<and> (\<forall>pc \<in> set (dg_threads s). target_ok u A pc)
     \<and> (\<forall>(h, target) \<in> set (dg_dials s). target \<in> A (dial_key u h))"

lemma heap_permits:
  assumes "\<And>rp key. rp < length (dg_heap s') \<Longrightarrow> addresses_at s' rp key = addresses_at s rp key"
    and "length (dg_heap s') = length (dg_heap s)" and "\<forall>r \<in> set (dg_heap s). permits A r"
  shows "\<forall>r \<in> set (dg_heap s'). permits A r"
proof
  fix r assume "r \<in> set (dg_heap s')"
  then obtain i where i: "i < length (dg_heap s')" "r = dg_heap s' ! i"
    by (auto simp: in_set_conv_nth)
  then have "permits A (dg_heap s ! i)"
    using assms(2,3) by simp
  then show "permits A r"
    using assms(1) [OF i(1)] unfolding permits_def i(2) by simp
qed

lemma scan_target:
  assumes "permits A (dg_heap s ! rp)" and "pool_at s rp key = Some p"
  shows "address (backends p ! unat (w mod of_nat (length (backends p)) :: 64 word)) \<in> A key"
proof -
  have "router_addrs (dg_heap s ! rp) key = Some (map address (backends p))"
    using assms(2) by (simp add: router_addrs_def pool_at_def)
  then have *: "set (map address (backends p)) \<subseteq> A key" "map address (backends p) \<noteq> []" "length (map address (backends p)) < 2 ^ 64"
    using assms(1) unfolding permits_def by blast+
  have "unat (w mod of_nat (length (backends p)) :: 64 word) < length (backends p)"
    using *(2,3) by (intro idx_less) simp_all
  then show ?thesis
    using *(1) by (simp add: image_subset_iff)
qed

lemma dial_next_target:
  assumes "dial_next u dial (pc, s) = (pc', s')" and "target_ok u A pc" and "\<forall>r \<in> set (dg_heap s). permits A r"
    and "\<forall>rp. router_ptr pc = Some rp \<longrightarrow> rp < length (dg_heap s)"
  shows "target_ok u A pc' \<and> set (dg_dials s') \<subseteq> set (dg_dials s) \<union> {(h, target). target \<in> A (dial_key u h)}"
proof (cases "(u, dial, pc, s)" rule: dial_next.cases)
  case (5 u1 dial1 h rp key start i k s1)
  then have "permits A (dg_heap s ! rp)"
    using assms(3,4) by simp
  then show ?thesis
    using 5 assms(1,2) scan_target [of A s rp key] by (auto simp: Let_def split: option.splits if_splits)
qed (use assms(1,2) in \<open>auto simp: Let_def put_pool_def split: option.splits sum.splits dialled.splits if_splits\<close>)

lemma dial_step_dials:
  assumes "dial_step u ok s s'" and d: "dials_ok u A s" and "\<And>r. ok r \<Longrightarrow> permits A r"
  shows "dials_ok u A s'"
proof -
  have p: "ptrs_ok s'"
    using dial_step_ptrs [OF assms(1)] d by (simp add: dials_ok_def)
  show ?thesis
    using assms(1)
  proof cases
    case (thread t dial pc s1)
    have "\<forall>r \<in> set (dg_heap s1). permits A r"
      using dial_next_addresses [OF thread(4)] dial_next_ptrs [OF thread(4)] d
      by (intro heap_permits [of s1 s]) (auto simp: dials_ok_def)
    moreover have "target_ok u A pc \<and> set (dg_dials s1) \<subseteq> set (dg_dials s) \<union> {(h, target). target \<in> A (dial_key u h)}"
      using thread(2) d by (intro dial_next_target [OF thread(4)]) (auto simp: dials_ok_def ptrs_ok_def)
    ultimately show ?thesis
      using d p thread(1) by (auto simp: dials_ok_def dest!: set_update_subset_insert [THEN subsetD])
  next
    case (health rp host addr v)
    have "\<forall>r \<in> set (dg_heap s'). permits A r"
      using dial_step_addresses [OF assms(1)] d health by (intro heap_permits [of s' s]) (auto simp: dials_ok_def health_report_def)
    then show ?thesis
      using d p health by (auto simp: dials_ok_def health_report_def)
  qed (use d p assms(3) in \<open>auto simp: dials_ok_def install_router_def\<close>)
qed

lemma dial_run_dials:
  "dial_run u ok s0 s \<Longrightarrow> dials_ok u A s0 \<Longrightarrow> (\<And>r. ok r \<Longrightarrow> permits A r) \<Longrightarrow> dials_ok u A s"
  by (induction rule: dial_run.induct) (auto intro: dial_step_dials)

section \<open>A thread that runs alone\<close>

text \<open>The dialer of \<open>Handler\<close> that a state shows to a thread.\<close>

definition dialer_of :: "dialing \<Rightarrow> routeDialer" where
  "dialer_of s = \<lparr>rd_router = dg_heap s ! dg_cur s, rd_dialTimeout = dg_dialTimeout s, rd_keepAlive = dg_keepAlive s,
     rd_inflightSem = dg_sem s, rd_dials = dg_dials s, rd_rejected = dg_rejected s\<rparr>"

definition leads_to :: "unicode \<Rightarrow> (string \<Rightarrow> int \<Rightarrow> dialled result) \<Rightarrow> dial_pc \<times> dialing \<Rightarrow> dial_pc \<times> dialing \<Rightarrow> bool" where
  "leads_to u dial x y \<longleftrightarrow> (\<exists>n. (dial_next u dial ^^ n) x = y)"

lemma leads_to_next: "leads_to u dial (dial_next u dial x) y \<Longrightarrow> leads_to u dial x y"
  unfolding leads_to_def by (metis comp_apply funpow_Suc_right)

lemma leads_to_refl: "leads_to u dial x x"
  unfolding leads_to_def by (metis funpow_0)

lemma leads_to_trans: "leads_to u dial x y \<Longrightarrow> leads_to u dial y z \<Longrightarrow> leads_to u dial x z"
  unfolding leads_to_def by (metis comp_apply funpow_add)

lemma leads_to_step: "dial_next u dial x = y \<Longrightarrow> leads_to u dial x y"
  by (rule leads_to_next) (simp add: leads_to_refl)

text \<open>The loop over the flags is \<open>pick_scan\<close>.\<close>

lemma scan_alone:
  assumes "pool_at s rp key = Some p"
  shows "leads_to u dial (Scanning h rp key start i k, s)
    (case pick_scan (backends p) start i k of
       Some a \<Rightarrow> (Dialling h a, s) | None \<Rightarrow> (Leaving (Inl (wrap_pick_error u h err_NoAliveBackends)) [], s))"
proof (induction k arbitrary: i)
  case 0
  show ?case
    by (rule leads_to_next) (simp add: leads_to_refl)
next
  case (Suc k)
  show ?case
    using Suc [of "Suc i"] by (rule_tac leads_to_next) (simp add: assms Let_def leads_to_refl)
qed

lemma pick_alone:
  assumes "rp < length (dg_heap s)" and pk_def: "pk = Pick u (dg_heap s ! rp) (socks_normalizeHost u h)"
  shows "leads_to u dial (Picking h rp, s)
    (case fst pk of Inr a \<Rightarrow> (Dialling h a, s\<lparr>dg_heap := (dg_heap s)[rp := snd pk]\<rparr>)
     | Inl e \<Rightarrow> (Leaving (Inl (wrap_pick_error u h e)) [], s\<lparr>dg_heap := (dg_heap s)[rp := snd pk]\<rparr>))"
proof (cases "pool_at s rp (dial_key u h)")
  case None
  then show ?thesis
    by (rule_tac leads_to_step) (simp add: pk_def Pick_cases pool_at_def)
next
  case (Some p)
  let ?s = "put_pool rp (dial_key u h) (p\<lparr>rr := rr p + 1\<rparr>) s"
  have q: "pool_at ?s rp (dial_key u h) = Some (p\<lparr>rr := rr p + 1\<rparr>)"
    using assms(1) by (simp add: pool_at_def put_pool_def gm.get_put)
  show ?thesis
    using scan_alone [OF q, of u dial h "rr p" 0 "length (backends p)"] Some
    by (rule_tac leads_to_next) (auto simp: pk_def Pick_cases pool_at_def put_pool_def Let_def split: option.splits)
qed

lemma dial_alone:
  assumes "dg_cur s < length (dg_heap s)" and that: "DialRoute u dial (dialer_of s) h = (res, target, d')"
  shows "\<exists>s'. leads_to u dial (Entered h, s) (DialDone res target, s') \<and> d' = dialer_of s'"
proof (cases "sem_try (dg_sem s)")
  case None
  then show ?thesis
    using that by (intro exI [of _ s] conjI leads_to_step) (auto simp: DialRoute_def dialer_of_def)
next
  case (Some q)
  let ?s1 = "s\<lparr>dg_sem := q\<rparr>"
  define pk where "pk = Pick u (dg_heap s ! dg_cur s) (socks_normalizeHost u h)"
  let ?s2 = "?s1\<lparr>dg_heap := (dg_heap s)[dg_cur s := snd pk]\<rparr>"
  have enter: "leads_to u dial (Entered h, s) (Picking h (dg_cur s), ?s1)"
    by (rule leads_to_next, rule leads_to_next) (simp add: Some leads_to_refl)
  note pick = leads_to_trans [OF enter, of "case fst pk of Inr a \<Rightarrow> (Dialling h a, ?s2) | Inl e \<Rightarrow> (Leaving (Inl (wrap_pick_error u h e)) [], ?s2)"]
  have p: "leads_to u dial (Entered h, s)
      (case fst pk of Inr a \<Rightarrow> (Dialling h a, ?s2) | Inl e \<Rightarrow> (Leaving (Inl (wrap_pick_error u h e)) [], ?s2))"
    using pick_alone [of "dg_cur s" ?s1 pk u h dial] assms by (intro pick) (simp add: pk_def cong: sum.case_cong)
  show ?thesis
  proof (cases "fst pk")
    case (Inl e)
    then have "leads_to u dial (Entered h, s) (DialDone (Inl (wrap_pick_error u h e)) [], ?s2\<lparr>dg_sem := sem_release q\<rparr>)"
      using leads_to_trans [OF p] by (simp add: leads_to_step)
    then show ?thesis
      using that Inl Some assms
      by (intro exI [of _ "?s2\<lparr>dg_sem := sem_release q\<rparr>"])
        (auto simp: DialRoute_def dialer_of_def dial_picked_def currentRouter_def pk_def [symmetric] Let_def split_beta)
  next
    case (Inr a)
    let ?s3 = "snd (dial_next u dial (Dialling h a, ?s2))"
    have "fst (dial_next u dial (Dialling h a, ?s2)) = Leaving res target"
      using Inr that Some by (auto simp: DialRoute_def dialer_of_def dial_picked_def currentRouter_def pk_def [symmetric]
          Let_def split_beta split: sum.splits dialled.splits)
    then have "dial_next u dial (Dialling h a, ?s2) = (Leaving res target, ?s3)"
      by (metis prod.collapse)
    moreover have "dg_sem ?s3 = q"
      by (simp add: Let_def split: sum.split dialled.split)
    ultimately have "leads_to u dial (Dialling h a, ?s2) (DialDone res target, ?s3\<lparr>dg_sem := sem_release q\<rparr>)"
      using leads_to_step [of u dial "(Leaving res target, ?s3)"] by (metis dial_next.simps(7) leads_to_next)
    then have "leads_to u dial (Entered h, s) (DialDone res target, ?s3\<lparr>dg_sem := sem_release q\<rparr>)"
      using leads_to_trans [OF p] Inr by simp
    then show ?thesis
      using that Inr Some assms
      by (intro exI [of _ "?s3\<lparr>dg_sem := sem_release q\<rparr>"])
        (auto simp: DialRoute_def dialer_of_def dial_picked_def currentRouter_def pk_def [symmetric] Let_def split_beta
          split: sum.splits dialled.splits)
  qed
qed

section \<open>No spurious failure\<close>

text \<open>A run in which every state, the first included, has a property.\<close>

inductive run_while :: "unicode \<Rightarrow> (Router \<Rightarrow> bool) \<Rightarrow> (dialing \<Rightarrow> bool) \<Rightarrow> dialing \<Rightarrow> dialing \<Rightarrow> bool" for u ok P s0 where
  refl: "P s0 \<Longrightarrow> run_while u ok P s0 s0"
| step: "run_while u ok P s0 s \<Longrightarrow> dial_step u ok s s' \<Longrightarrow> P s' \<Longrightarrow> run_while u ok P s0 s'"

definition stays_up :: "nat \<Rightarrow> string \<Rightarrow> nat \<Rightarrow> dialing \<Rightarrow> bool" where
  "stays_up rp key j s \<longleftrightarrow> (\<exists>p. pool_at s rp key = Some p \<and> j < length (backends p) \<and> up (backends p ! j))"

text \<open>What a scan that has not passed backend \<open>j\<close> looks like; once it has found a backend it may go anywhere.\<close>

definition not_passed :: "nat \<Rightarrow> nat \<Rightarrow> nat \<Rightarrow> string \<Rightarrow> 64 word \<Rightarrow> dial_pc \<Rightarrow> bool" where
  "not_passed n j rp key start pc \<longleftrightarrow>
     (case pc of
        Scanning h rp' key' start' i k \<Rightarrow> rp' = rp \<and> key' = key \<and> start' = start \<and> i + k = n \<and> (\<forall>m < i. (unat start + m) mod n \<noteq> j)
      | Dialling h a \<Rightarrow> True | Leaving res a \<Rightarrow> True | DialDone res a \<Rightarrow> True | _ \<Rightarrow> False)"

lemma window_complete:
  assumes "j < n"
  shows "\<exists>m < n. ((s :: nat) + m) mod n = j"
proof -
  have "rotate s [0..<n] ! m = (s + m) mod n" if "m < n" for m
    using that assms by (simp add: nth_rotate)
  moreover have "j \<in> set (rotate s [0..<n])"
    using assms by simp
  moreover obtain m where "m < n" "rotate s [0..<n] ! m = j"
    using \<open>j \<in> set (rotate s [0..<n])\<close> unfolding in_set_conv_nth by auto
  ultimately show ?thesis
    by auto
qed

lemma scan_step_not_passed:
  assumes "dial_next u dial (pc, s) = (pc', s')" and "not_passed n j rp key start pc"
    and "stays_up rp key j s" and "map_option (length \<circ> backends) (pool_at s rp key) = Some n"
    and "unat start + n \<le> 2 ^ 64" and "n < 2 ^ 64"
  shows "not_passed n j rp key start pc'"
proof (cases "(u, dial, pc, s)" rule: dial_next.cases)
  case (4 u1 dial1 h rp1 key1 start1 i s1)
  then show ?thesis
    using assms(2,3,4) window_complete [of j n "unat start"] by (auto simp: not_passed_def stays_up_def)
next
  case (5 u1 dial1 h rp1 key1 start1 i k s1)
  then have pc: "pc = Scanning h rp key start i (Suc k)" "i + Suc k = n" "\<forall>m < i. (unat start + m) mod n \<noteq> j"
    using assms(2) by (auto simp: not_passed_def)
  obtain p where p: "pool_at s rp key = Some p" "length (backends p) = n" "up (backends p ! j)"
    using assms(3,4) by (auto simp: stays_up_def)
  have idx: "unat ((start + of_nat i) mod of_nat n :: 64 word) = (unat start + i) mod n"
    using assms(5,6) pc(2) by (intro idx_unat) auto
  show ?thesis
  proof (cases "(unat start + i) mod n = j")
    case True
    then show ?thesis
      using assms(1) p idx by (auto simp: pc(1) Let_def up_def not_passed_def)
  next
    case False
    then show ?thesis
      using assms(1) p idx pc(2,3) by (auto simp: pc(1) Let_def not_passed_def less_Suc_eq split: if_splits)
  qed
qed (use assms(1,2) in \<open>auto simp: not_passed_def Let_def split: option.splits sum.splits dialled.splits\<close>)

lemma addrs_length:
  "router_addrs (dg_heap s ! rp) key = Some as \<longleftrightarrow> (\<exists>p. pool_at s rp key = Some p \<and> as = map address (backends p))"
  by (auto simp: router_addrs_def pool_at_def)

lemma run_not_passed:
  assumes "run_while u ok (stays_up rp key j) s0 s" and "rp < length (dg_heap s0)" and "t < length (dg_threads s0)"
    and "dg_threads s0 ! t = Scanning h rp key start 0 n" and "router_addrs (dg_heap s0 ! rp) key = Some as" and "length as = n"
    and "unat start + n \<le> 2 ^ 64" and "n < 2 ^ 64"
  shows "rp < length (dg_heap s) \<and> t < length (dg_threads s) \<and> router_addrs (dg_heap s ! rp) key = Some as
    \<and> not_passed n j rp key start (dg_threads s ! t)"
  using assms(1)
proof (induction rule: run_while.induct)
  case refl
  then show ?case
    using assms(2-5) by (simp add: not_passed_def)
next
  case (step s s')
  have a: "rp < length (dg_heap s') \<and> router_addrs (dg_heap s' ! rp) key = Some as"
    using dial_step_addresses [OF step.hyps(2), of rp key] step.IH by simp
  have up: "stays_up rp key j s"
    using step.hyps(1) by (cases rule: run_while.cases) auto
  have l: "map_option (length \<circ> backends) (pool_at s rp key) = Some n"
    using step.IH assms(6) by (auto simp: addrs_length)
  from step.hyps(2) have "t < length (dg_threads s') \<and> not_passed n j rp key start (dg_threads s' ! t)"
  proof cases
    case (thread t' dial pc s1)
    show ?thesis
    proof (cases "t' = t")
      case True
      then show ?thesis
        using scan_step_not_passed [OF thread(4) _ up l assms(7,8)] thread(1,2) step.IH by simp
    next
      case False
      then show ?thesis
        using thread(1) step.IH by simp
    qed
  qed (use step.IH in \<open>auto simp: nth_append install_router_def health_report_def\<close>)
  then show ?case
    using a by simp
qed

section \<open>Properties\<close>

lemma dialing_start_ok:
  "tokens_ok (dialing_start r dt ka md)" "ptrs_ok (dialing_start r dt ka md)"
  by (simp_all add: dialing_start_def tokens_ok_def ptrs_ok_def dials_in_flight_def sem_make_def)

lemma dial_step_capacity: "dial_step u ok s s' \<Longrightarrow> map_option fst (dg_sem s') = map_option fst (dg_sem s)"
proof (induction rule: dial_step.induct)
  case (thread t s dial pc s')
  then show ?case
    using dial_next_sem [OF thread(3,2)] by (auto split: option.splits)
qed (simp_all add: install_router_def health_report_def)

lemma dial_run_capacity: "dial_run u ok s0 s \<Longrightarrow> map_option fst (dg_sem s) = map_option fst (dg_sem s0)"
  by (induction rule: dial_run.induct) (auto dest: dial_step_capacity)

text \<open>C9: the limit on dials in flight holds under every interleaving of sessions, reloads and health reports:
  with a positive \<open>max_inflight_dials\<close>, never more threads than that are between taking and giving back a
  token, so never more backends are being dialled.\<close>

theorem inflight_limit_respected:
  assumes "0 < md" and "dial_run u ok (dialing_start r dt ka md) s"
  shows "int (dials_in_flight s) \<le> md"
proof -
  obtain n where "dg_sem s = Some (nat md, n)"
    using dial_run_capacity [OF assms(2)] assms(1) by (auto simp: dialing_start_def sem_make_def)
  then show ?thesis
    using dial_run_tokens [OF assms(2) dialing_start_ok(1)] assms(1) by (auto simp: tokens_ok_def)
qed

definition demo_dialing :: dialing where
  "demo_dialing = (dialing_start demo_router 5 0 1)\<lparr>dg_threads := [Entered ''db'']\<rparr>"

definition demo_holding :: dialing where
  "demo_holding = demo_dialing\<lparr>dg_sem := Some (1, 1), dg_threads := [Holding ''db'']\<rparr>"

lemma demo_dialing_start: "dial_run ascii_tables ok (dialing_start demo_router 5 0 1) demo_dialing"
  using dial_run.step [OF dial_run.refl dial_step.spawn [of ascii_tables ok "dialing_start demo_router 5 0 1" "''db''"]]
  by (simp add: demo_dialing_def dialing_start_def)

lemma demo_dialing_runs: "dial_run ascii_tables ok (dialing_start demo_router 5 0 1) demo_holding"
proof -
  have "dial_step ascii_tables ok demo_dialing demo_holding"
    using dial_step.thread [of 0 demo_dialing ascii_tables undefined "Holding ''db''" "demo_dialing\<lparr>dg_sem := Some (1, 1)\<rparr>" ok]
    by (simp add: demo_holding_def demo_dialing_def dialing_start_def sem_make_def)
  then show ?thesis
    using demo_dialing_start by (meson dial_run.step)
qed

theorem inflight_limit_respected_witness:
  "int (dials_in_flight demo_holding) \<le> 1 \<and> dials_in_flight demo_holding = 1"
  using inflight_limit_respected [OF _ demo_dialing_runs]
  by (simp add: dials_in_flight_def demo_holding_def)

text \<open>C8: a dial for a host goes only to an address configured for this host, under every interleaving. If the first
  router and all that are installed later hold only permitted addresses for each host, then so are
  all dials: one that keeps an old router over a reload, and one whose pool is changed by health reports
  during the scan, included.\<close>

theorem dials_permitted:
  assumes "permits A r" and "\<And>r'. ok r' \<Longrightarrow> permits A r'" and "dial_run u ok (dialing_start r dt ka md) s"
    and "(h, target) \<in> set (dg_dials s)"
  shows "target \<in> A (dial_key u h)"
proof -
  have "dials_ok u A (dialing_start r dt ka md)"
    using assms(1) dialing_start_ok(2) [of r dt ka md] by (simp add: dials_ok_def dialing_start_def)
  then have "dials_ok u A s"
    using dial_run_dials [OF assms(3)] assms(2) by blast
  then show ?thesis
    using assms(4) by (auto simp: dials_ok_def)
qed

text \<open>A thread that runs alone makes a run of the system.\<close>

lemma alone_is_run:
  assumes "t < length (dg_threads s)" and "(dial_next u dial ^^ n) (dg_threads s ! t, s) = (pc', s')"
  shows "dial_run u ok s (s'\<lparr>dg_threads := (dg_threads s)[t := pc']\<rparr>) \<and> dg_threads s' = dg_threads s"
  using assms(2)
proof (induction n arbitrary: pc' s')
  case 0
  then show ?case
    by (auto intro: dial_run.refl)
next
  case (Suc n)
  obtain pc1 s1 where x: "(dial_next u dial ^^ n) (dg_threads s ! t, s) = (pc1, s1)" and "dial_next u dial (pc1, s1) = (pc', s')"
    using Suc.prems by (metis comp_apply funpow.simps(2) prod.exhaust)
  let ?s1 = "s1\<lparr>dg_threads := (dg_threads s)[t := pc1]\<rparr>"
  show ?case
  proof (cases "dial_over pc1")
    case True
    then have "(pc', s') = (pc1, s1)"
      using \<open>dial_next u dial (pc1, s1) = (pc', s')\<close> by (cases pc1) auto
    then show ?thesis
      using Suc.IH [OF x] by simp
  next
    case False
    have "dial_next u dial (pc1, s1\<lparr>dg_threads := th\<rparr>) = (pc', s'\<lparr>dg_threads := th\<rparr>)" for th
      using \<open>dial_next u dial (pc1, s1) = (pc', s')\<close>
      by (cases "(u, dial, pc1, s1)" rule: dial_next.cases)
        (auto simp: Let_def put_pool_def pool_at_def split: option.splits sum.splits dialled.splits if_splits)
    then have "dial_step u ok ?s1 (s'\<lparr>dg_threads := (dg_threads s)[t := pc1, t := pc']\<rparr>)"
      using dial_step.thread [of t ?s1 u dial pc' "s'\<lparr>dg_threads := (dg_threads s)[t := pc1]\<rparr>" ok] False assms(1) by simp
    then show ?thesis
      using Suc.IH [OF x] dial_next_threads [OF \<open>dial_next u dial (pc1, s1) = (pc', s')\<close>] by (auto intro: dial_run.step)
  qed
qed

abbreviation "demo_allowed \<equiv> (\<lambda>_ :: string. {''10.0.2.1:5432'', ''10.0.1.10:8080'', ''10.0.1.11:8080''})"

lemma demo_router_permits: "permits demo_allowed demo_router"
  by (auto simp: permits_def router_addrs_def demo_router_def gm_get_def fresh_backends_def split: if_splits)

lemma demo_dial_run:
  "\<exists>s. dial_run ascii_tables ok (dialing_start demo_router 5 0 1) s \<and> dg_dials s = [(''db'', ''10.0.2.1:5432'')]"
proof -
  let ?dial = "\<lambda>a t. Inl (errors_New ''refused'') :: dialled result"
  have c: "dg_cur demo_dialing < length (dg_heap demo_dialing)" "0 < length (dg_threads demo_dialing)"
    "dg_threads demo_dialing ! 0 = Entered ''db''"
    by (simp_all add: demo_dialing_def dialing_start_def)
  obtain res target d' where d: "DialRoute ascii_tables ?dial (dialer_of demo_dialing) ''db'' = (res, target, d')"
    by (metis prod.exhaust)
  obtain n s' where s': "(dial_next ascii_tables ?dial ^^ n) (Entered ''db'', demo_dialing) = (DialDone res target, s')"
    "d' = dialer_of s'"
    using dial_alone [OF c(1) d] unfolding leads_to_def by blast
  have "socks_normalizeHost ascii_tables ''db'' = ''db''"
    by code_simp
  moreover have "fst (Pick ascii_tables demo_router ''db'') = Inr ''10.0.2.1:5432''"
    by code_simp
  ultimately have "rd_dials d' = [(''db'', ''10.0.2.1:5432'')]"
    using d DialRoute_frame [OF d]
    by (auto simp: DialRoute_def dial_picked_def currentRouter_def dialer_of_def demo_dialing_def dialing_start_def sem_make_def
        split_beta Let_def)
  moreover have "dial_run ascii_tables ok demo_dialing (s'\<lparr>dg_threads := (dg_threads demo_dialing)[0 := DialDone res target]\<rparr>)"
    using alone_is_run [OF c(2)] s'(1) c(3) by metis
  ultimately show ?thesis
    using dial_run_trans [OF _ demo_dialing_start] s'(2)
    by (intro exI [of _ "s'\<lparr>dg_threads := (dg_threads demo_dialing)[0 := DialDone res target]\<rparr>"]) (auto simp: dialer_of_def)
qed

theorem dials_permitted_witness:
  "''10.0.2.1:5432'' \<in> demo_allowed (dial_key ascii_tables ''db'')
   \<and> (\<exists>s. dial_run ascii_tables (permits demo_allowed) (dialing_start demo_router 5 0 1) s
        \<and> (''db'', ''10.0.2.1:5432'') \<in> set (dg_dials s))"
proof -
  obtain s where r: "dial_run ascii_tables (permits demo_allowed) (dialing_start demo_router 5 0 1) s"
    and d: "(''db'', ''10.0.2.1:5432'') \<in> set (dg_dials s)"
    using demo_dial_run [of "permits demo_allowed"] by auto
  show ?thesis
    using dials_permitted [OF demo_router_permits _ r d] r d by blast
qed

text \<open>C21: \<open>DialRoute\<close> of the session model is what a thread does that is not disturbed: from every state with a
  valid current router, its single steps end, with the result, the target and the dialer that
  \<open>DialRoute\<close> gives.\<close>

theorem dial_steps_refine:
  assumes "dg_cur s < length (dg_heap s)"
  shows "\<exists>n res target s'. (dial_next u dial ^^ n) (Entered h, s) = (DialDone res target, s')
    \<and> DialRoute u dial (dialer_of s) h = (res, target, dialer_of s')"
proof -
  obtain res target d' where "DialRoute u dial (dialer_of s) h = (res, target, d')"
    by (metis prod.exhaust)
  then show ?thesis
    using dial_alone [OF assms] unfolding leads_to_def by blast
qed

theorem dial_steps_refine_witness:
  "\<exists>n res target s'. (dial_next ascii_tables (\<lambda>a t. Inl (errors_New ''refused'')) ^^ n) (Entered ''db'', demo_dialing)
     = (DialDone res target, s')"
  using dial_steps_refine [of demo_dialing ascii_tables "\<lambda>a t. Inl (errors_New ''refused'')" "''db''"]
  by (fastforce simp: demo_dialing_def dialing_start_def)

text \<open>C22: a backend that is up all the time saves the pick. If a scan has just started, and some backend of its pool is
  up in every state from then on, whatever other threads, reloads and reports of the other
  backends do, then the scan does not run out of backends. The counter must not overflow within the scan.\<close>

theorem no_spurious_failure:
  assumes "rp < length (dg_heap s0)" and "t < length (dg_threads s0)"
    and "dg_threads s0 ! t = Scanning h rp key start 0 n" and "router_addrs (dg_heap s0 ! rp) key = Some as" and "length as = n"
    and "unat start + n \<le> 2 ^ 64" and "n < 2 ^ 64" and "run_while u ok (stays_up rp key j) s0 s"
  shows "dg_threads s ! t \<noteq> Scanning h' rp' key' start' i 0"
proof
  assume z: "dg_threads s ! t = Scanning h' rp' key' start' i 0"
  have np: "not_passed n j rp key start (dg_threads s ! t)" and a: "router_addrs (dg_heap s ! rp) key = Some as"
    using run_not_passed [OF assms(8,1-7)] by auto
  have "stays_up rp key j s"
    using assms(8) by (cases rule: run_while.cases) auto
  then have "j < n"
    using a assms(5) by (auto simp: stays_up_def addrs_length)
  then show False
    using np z window_complete [of j n "unat start"] by (auto simp: not_passed_def)
qed

text \<open>A scan of two backends, the second of which is reported dead meanwhile.\<close>

definition demo_scan :: dialing where
  "demo_scan = demo_dialing\<lparr>dg_sem := Some (1, 1), dg_threads := [Scanning ''db'' 0 ''db'' 0 0 2]\<rparr>"

theorem no_spurious_failure_witness:
  "dg_threads (health_report ascii_tables 0 ''db'' ''10.0.1.10:8080'' False demo_scan) ! 0 \<noteq> Scanning ''db'' 0 ''db'' 0 2 0"
proof -
  let ?s = "health_report ascii_tables 0 ''db'' ''10.0.1.10:8080'' False demo_scan"
  have "stays_up 0 ''db'' 0 demo_scan"
    by (simp add: stays_up_def pool_at_def demo_scan_def demo_dialing_def dialing_start_def demo_router_def gm_get_def
        fresh_backends_def up_def)
  moreover have "stays_up 0 ''db'' 0 ?s"
    by (simp add: stays_up_def pool_at_def health_report_def demo_scan_def demo_dialing_def dialing_start_def demo_router_def
        SetBackendAlive_def Let_def demo_keys_norm gm_eval fresh_backends_def up_def)
  moreover have "0 < length (dg_heap demo_scan)" "0 < length (dg_threads demo_scan)"
    "dg_threads demo_scan ! 0 = Scanning ''db'' 0 ''db'' 0 0 2"
    "router_addrs (dg_heap demo_scan ! 0) ''db'' = Some [''10.0.2.1:5432'', ''10.0.1.10:8080'']"
    by (simp_all add: demo_scan_def demo_dialing_def dialing_start_def router_addrs_def demo_router_def gm_get_def fresh_backends_def)
  moreover from this have "run_while ascii_tables (\<lambda>r. False) (stays_up 0 ''db'' 0) demo_scan ?s"
    using \<open>stays_up 0 ''db'' 0 demo_scan\<close> \<open>stays_up 0 ''db'' 0 ?s\<close>
    by (intro run_while.step [OF run_while.refl dial_step.health]) auto
  ultimately show ?thesis
    using no_spurious_failure [of 0 demo_scan 0 "''db''" "''db''" 0 2 "[''10.0.2.1:5432'', ''10.0.1.10:8080'']"] by simp
qed

end
