(* ===== verification/Reload_Channel.thy ===== *)
theory Reload_Channel
  imports Runtime
begin

text \<open>
  How a discovery asks the main loop for a reload, \<open>run\<close> of \<open>cmd/zerosock/main.go\<close>. The function given to
  \<open>newDiscoverer\<close> sends a fresh answer channel on \<open>reloadRequestCh\<close>, which buffers four, and waits for the answer; the loop
  takes requests in order, reloads and answers. Requests are numbered in the order they are sent. A session that finds the
  buffer full waits before its send, which is a step that is not yet enabled.
\<close>

section \<open>State and steps\<close>

record 'x process =
  pr_state :: "'x run_state"
  pr_queue :: "nat list"
  pr_sent :: nat
  pr_answered :: "(nat \<times> go_error option) list"

definition reloadRequestCap :: nat where "reloadRequestCap = 4"

definition send_request :: "'x process \<Rightarrow> 'x process" where
  "send_request p = p\<lparr>pr_queue := pr_queue p @ [pr_sent p], pr_sent := Suc (pr_sent p)\<rparr>"

text \<open>The answer of the loop to the first request, if the reload does not panic.\<close>

definition serve_request :: "world \<Rightarrow> string \<Rightarrow> 'x runtimeState \<Rightarrow> 'x process \<Rightarrow> 'x process option" where
  "serve_request w path st p =
     (case (pr_queue p, reload w path st) of
        (i # q, Ok (res, _)) \<Rightarrow>
          (case run_step path (ReloadRequest w) st of
             Ok rs \<Rightarrow> Some (p\<lparr>pr_state := rs, pr_queue := q, pr_answered := pr_answered p @ [(i, res)]\<rparr>)
           | _ \<Rightarrow> None)
      | _ \<Rightarrow> None)"

fun from_outside :: "run_event \<Rightarrow> bool" where
  "from_outside (ReloadRequest w) = False" | "from_outside _ = True"

inductive process_step :: "string \<Rightarrow> 'x process \<Rightarrow> 'x process \<Rightarrow> bool" for path where
  send: "length (pr_queue p) < reloadRequestCap \<Longrightarrow> process_step path p (send_request p)"
| serve: "pr_state p = Looping st \<Longrightarrow> serve_request w path st p = Some p' \<Longrightarrow> process_step path p p'"
| event: "pr_state p = Looping st \<Longrightarrow> from_outside ev \<Longrightarrow> run_step path ev st = Ok rs \<Longrightarrow> process_step path p (p\<lparr>pr_state := rs\<rparr>)"
| finish: "pr_state p = ShuttingDown st \<Longrightarrow> process_step path p (p\<lparr>pr_state := run_shutdown wt st\<rparr>)"

definition process_start :: "'x runtimeState \<Rightarrow> 'x process" where
  "process_start st = \<lparr>pr_state = Looping st, pr_queue = [], pr_sent = 0, pr_answered = []\<rparr>"

abbreviation "process_run path \<equiv> (process_step path)\<^sup>*\<^sup>*"

section \<open>Order\<close>

definition in_order :: "'x process \<Rightarrow> bool" where
  "in_order p \<longleftrightarrow> map fst (pr_answered p) @ pr_queue p = [0..<pr_sent p] \<and> length (pr_queue p) \<le> reloadRequestCap"

lemma serve_request_Some:
  "serve_request w path st p = Some p' \<Longrightarrow>
     \<exists>i q res rs. pr_queue p = i # q \<and> p' = p\<lparr>pr_state := rs, pr_queue := q, pr_answered := pr_answered p @ [(i, res)]\<rparr>"
  by (cases "pr_queue p"; cases "reload w path st"; cases "run_step path (ReloadRequest w) st")
    (auto simp: serve_request_def simp del: run_step.simps)

lemma step_in_order:
  assumes "process_step path p p'" and "in_order p"
  shows "in_order p'"
  using assms(1)
proof cases
  case (serve st w)
  then show ?thesis
    using assms(2) by (auto simp: in_order_def dest!: serve_request_Some)
qed (use assms(2) in \<open>auto simp: in_order_def send_request_def\<close>)

lemma run_in_order: "process_run path p p' \<Longrightarrow> in_order p \<Longrightarrow> in_order p'"
  by (induction rule: rtranclp_induct) (auto intro: step_in_order)

section \<open>After the loop\<close>

fun left_loop :: "'x run_state \<Rightarrow> bool" where
  "left_loop (Looping st) = False" | "left_loop _ = True"

lemma step_after_loop:
  assumes "process_step path p p'" and "left_loop (pr_state p)"
  shows "left_loop (pr_state p') \<and> pr_answered p' = pr_answered p \<and> (\<exists>is. pr_queue p' = pr_queue p @ is)"
  using assms(1) by cases (use assms(2) in \<open>auto simp: send_request_def run_shutdown_def\<close>)

lemma run_after_loop:
  "process_run path p p' \<Longrightarrow> left_loop (pr_state p) \<Longrightarrow>
     left_loop (pr_state p') \<and> pr_answered p' = pr_answered p \<and> (\<exists>is. pr_queue p' = pr_queue p @ is)"
  by (induction rule: rtranclp_induct) (auto dest!: step_after_loop)

section \<open>The property\<close>

text \<open>C31: reload requests are answered in the order they were sent, each at most once, and no more than four are queued. While the
  process loops it can answer the next one, with the result of the reload, unless that reload panics. Once it has left the loop
  no request that is still queued, or sent later, is ever answered: the session behind it waits for good.\<close>

theorem reload_requests_in_order:
  assumes "process_run path (process_start st) p"
  shows "map fst (pr_answered p) @ pr_queue p = [0..<pr_sent p] \<and> length (pr_queue p) \<le> 4
    \<and> (\<forall>st' i q w res st''. pr_state p = Looping st' \<and> pr_queue p = i # q \<and> reload w path st' = Ok (res, st'') \<longrightarrow>
         (\<exists>p'. process_step path p p' \<and> pr_answered p' = pr_answered p @ [(i, res)]))
    \<and> (\<forall>p'. left_loop (pr_state p) \<and> process_run path p p' \<longrightarrow>
         pr_answered p' = pr_answered p \<and> (\<forall>i \<in> set (pr_queue p). i \<in> set (pr_queue p')))"
proof (intro conjI)
  have "in_order (process_start st)"
    by (simp add: in_order_def process_start_def)
  then show "map fst (pr_answered p) @ pr_queue p = [0..<pr_sent p]" "length (pr_queue p) \<le> 4"
    using run_in_order [OF assms] by (auto simp: in_order_def reloadRequestCap_def)
  show "\<forall>st' i q w res st''. pr_state p = Looping st' \<and> pr_queue p = i # q \<and> reload w path st' = Ok (res, st'') \<longrightarrow>
         (\<exists>p'. process_step path p p' \<and> pr_answered p' = pr_answered p @ [(i, res)])"
  proof (intro allI impI, elim conjE)
    fix st' i q w res st'' assume l: "pr_state p = Looping st'" and q: "pr_queue p = i # q" and r: "reload w path st' = Ok (res, st'')"
    obtain rs where rs: "run_step path (ReloadRequest w) st' = Ok rs"
      using r by (cases res) auto
    then show "\<exists>p'. process_step path p p' \<and> pr_answered p' = pr_answered p @ [(i, res)]"
      using process_step.serve [OF l, of w path] q r by (auto simp: serve_request_def)
  qed
  show "\<forall>p'. left_loop (pr_state p) \<and> process_run path p p' \<longrightarrow>
         pr_answered p' = pr_answered p \<and> (\<forall>i \<in> set (pr_queue p). i \<in> set (pr_queue p'))"
    using run_after_loop by fastforce
qed

text \<open>A request that is queued when the process is told to stop.\<close>

theorem reload_requests_in_order_witness:
  "\<exists>st p. run_init demo_world ''config.yaml'' (\<lambda>h p rx. (Inr False, rx)) () = Ok st
     \<and> process_run ''config.yaml'' (process_start st) p \<and> left_loop (pr_state p) \<and> pr_queue p = [0]
     \<and> (\<forall>p'. process_run ''config.yaml'' p p' \<longrightarrow> pr_answered p' = [])"
proof -
  obtain st where st: "run_init demo_world ''config.yaml'' (\<lambda>h p rx. (Inr False, rx)) () = Ok st"
    using demo_init [of "''config.yaml''" "\<lambda>h p rx. (Inr False, rx)" "()"] by auto
  obtain st' where ev: "run_step ''config.yaml'' (SIGTERM ''terminated'' None) st = Ok (ShuttingDown st')"
    by (simp add: split_beta)
  let ?p1 = "send_request (process_start st)" and ?p2 = "(send_request (process_start st))\<lparr>pr_state := ShuttingDown st'\<rparr>"
  have "process_step ''config.yaml'' (process_start st) ?p1"
    by (rule process_step.send) (simp add: process_start_def reloadRequestCap_def)
  moreover have "process_step ''config.yaml'' ?p1 ?p2"
    by (rule process_step.event [OF _ _ ev]) (simp_all add: process_start_def send_request_def)
  ultimately have r: "process_run ''config.yaml'' (process_start st) ?p2"
    by (meson rtranclp.rtrancl_into_rtrancl rtranclp.rtrancl_refl)
  have f: "left_loop (pr_state ?p2)" "pr_queue ?p2 = [0]" "pr_answered ?p2 = []"
    by (simp_all add: process_start_def send_request_def)
  have "\<forall>p'. process_run ''config.yaml'' ?p2 p' \<longrightarrow> pr_answered p' = []"
    using reload_requests_in_order [OF r] f by (metis (no_types, lifting))
  then show ?thesis
    using st r f by (intro exI [of _ st] exI [of _ ?p2] conjI)
qed

end
