(* ===== verification/Spec2Isabelle.thy ===== *)
theory Spec2Isabelle
  imports Discovery_Steps Drain Relay_Steps Dialing Reload_Channel
begin

text \<open>
  \<^bold>\<open>ZeroSock\<close>

  ZeroSock is a SOCKS5 proxy that dials only configured backends. A client asks for a host name or an IPv4
  address; the routing table gives a pool of backends, the proxy picks a live one in round-robin order, dials it and relays
  bytes. Health checkers keep the alive flags of the table, a signal reloads the configuration file, and
  optional auto-discovery adds unknown targets to that file. This development models the Go code under \<open>src/\<close> and
  proves what makes it correct.

  \<^bold>\<open>Theories and sources\<close>

  \<^item> \<open>Zs_Prelude\<close>: results and errors (\<open>go_error\<close> with the sentinels \<open>errors.Is\<close> asks for), outcomes with panics, Go maps
    as association lists with distinct keys (locale \<open>go_map\<close>, interpreted as \<open>gm\<close>) and range loops over them in an
    arbitrary order, lemmas on lists, and the locale \<open>shrinking\<close> of step relations that come to an end (interpreted
    for the relay and for the shutdown).
  \<^item> \<open>Go_Strings\<close>, \<open>Go_Net\<close>, \<open>Go_Float\<close>: what the code uses of \<open>strings\<close>, \<open>strconv\<close>, \<open>fmt\<close>, \<open>time\<close>, \<open>net\<close> and of
    float64 printing.
  \<^item> \<open>Router\<close>: \<open>internal/router/pool.go\<close>. The record \<open>Router\<close> is the code's struct; \<open>New\<close>, \<open>Pick\<close>, \<open>SetBackendAlive\<close>,
    \<open>HostForBackendAddr\<close> and \<open>Snapshot\<close> are its operations. The locale \<open>backend_table\<close> is what its clients rely on
    (interpreted as \<open>bt\<close>).
  \<^item> \<open>Protocol\<close>: \<open>internal/socks/protocol.go\<close>, greeting, request and replies over the record \<open>conn\<close>, a byte stream
    with its end, the results of its writes, its deadlines and close flags.
  \<^item> \<open>Config\<close>: \<open>internal/config/config.go\<close>, validation with every error branch, loading, saving, and the edit
    of auto-discovery.
  \<^item> \<open>Metrics\<close> and \<open>Exporter\<close>: \<open>internal/metrics/collector.go\<close> and \<open>exporter.go\<close>; the locale \<open>counters\<close> (interpreted as \<open>cm\<close>)
    carries the counting lemmas.
  \<^item> \<open>Health\<close>: \<open>internal/health/checker.go\<close>, the workers, their probes and reports.
  \<^item> \<open>Handler\<close>: \<open>internal/socks/handler.go\<close>, the dialer and the session as one function \<open>handleConnection\<close>; the
    locale \<open>session_invariant\<close> carries an invariant of the dialer through a session (interpreted for the tokens of the
    dial limit and for the set of dialled addresses).
  \<^item> \<open>Session_Steps\<close>: the session cut into stages at the calls that may wait; undisturbed, the stages compute
    \<open>handleConnection\<close>.
  \<^item> \<open>Relay_Steps\<close> and \<open>Dialing\<close>: the relay's two goroutines and the concurrent dials of many sessions at the grain of single
    reads, writes and shared accesses.
  \<^item> \<open>Server\<close> and \<open>Drain\<close>: \<open>internal/socks/server.go\<close> as a step relation in which sessions interleave stage by stage, and the end
    of a shutdown, for any sessions that wait for good.
  \<^item> \<open>Runtime\<close>: \<open>cmd/zerosock/reload.go\<close> and \<open>main.go\<close>: reload and its policy, main loop, shutdown, validation mode;
    \<open>Reload_Channel\<close>: the queue of reload requests between discoveries and that loop.
  \<^item> \<open>Discovery\<close> and \<open>Discovery_Steps\<close>: \<open>cmd/zerosock/discovery.go\<close>, one call and many concurrent calls.

  \<^bold>\<open>What is shown\<close>

  \<^item> Denial by default: a target that no route lists is refused and nothing is dialled (below); a session dials only
    what the router holds (\<open>Handler\<close>), also under every interleaving with reloads and health reports (\<open>Dialing\<close>).
  \<^item> Routing: \<open>Pick\<close> is round robin over the live backends and fair, in a pool without repeated addresses a dead backend is not picked until it
    is reported alive, a backend that stays up keeps a concurrent scan from failing; construction serves every configured host.
  \<^item> Sessions: the bytes a client and a backend get, end to end; every session is counted once; the sequential relay
    describes every interleaving of its goroutines, and each of them ends.
  \<^item> Limits: connections and dials in flight never exceed their limits; tokens, gauge and wait group always
    equal the threads they stand for; a shutdown ends with every client served except those whose session waits
    for good, which the books then count exactly.
  \<^item> Configuration: which files are accepted, what an accepted one guarantees, no panics with consistent name
    resolution; the validation mode predicts the start; reloads keep the settings of the process, failed ones change
    nothing, and exactly one health checker runs; reload requests are answered in order while the main loop runs.
  \<^item> Health: every routed address is probed, a probe changes exactly its address for the hosts of its group, a failed probe
    isolates the address, workers do not panic on intervals that fit a duration.
  \<^item> Metrics: counters are sums of events modulo \<open>2\<^sup>6\<^sup>4\<close>, labels survive their encoding, the page does not
    depend on map orders.
  \<^item> Defects that the model shows are theorems too: overflow of the round-robin counter, a repeated address in a pool, a panic on
    a second failed resolution, an overflowing interval, hosts that normalise alike, an overwritten
    discovered group, labels with commas, reasons read off error texts, a client that \<open>Wait\<close> misses, an ignored change of
    \<open>auto_discovery\<close>, a discovered textual address without a route, a route lost by concurrent discoveries, and a
    discovery whose reload request is still queued when the main loop ends.

  \<^bold>\<open>Parameters and assumptions\<close>

  The Unicode tables, the name resolver, the YAML package, the disk, the network dial and HTTP client, the clock at each place it is
  read, the order of each range over a map, how \<open>io.Copy\<close> splits a stream, and the discoverer of a session are arguments of the
  definitions. Hypotheses on them are named where they are used: \<open>is_order\<close> (a range visits each key once), \<open>stable\<close>
  (the resolver answers alike each time), round trips of YAML for the configurations at hand.

  \<^bold>\<open>Bounds and fuel\<close>

  All definitions are total. The attempt loop of a session runs at most twice (measure \<open>1 - attempt\<close>), \<open>io_copy\<close> shortens its
  input, worker and main loops run over the list of events they receive. In \<open>Go_Float\<close> the search for the position of the
  first digit has fuel 400, more than the 324 decimal places of the smallest float64, and the shortest form is searched up to 17
  digits, which identify every float64. Words are kept at 8, 16, 32 and 64 bits where the code has them; durations are
  integers with the wrap-around of \<open>durationFromMS\<close> written out.

  \<^bold>\<open>Not modelled\<close>

  Socket options (keep-alive), the HTTP server behind the metrics endpoint, flag parsing and signal registration, and log time stamps: calls
  into the standard library whose effect no other part of the program reads. Deadlines are recorded, but that a read fails
  when one passes is part of the argument streams. In \<open>Server\<close> a stage of a session is one step; \<open>Dialing\<close> and \<open>Relay_Steps\<close> refine its two
  concurrent parts separately. A reload is one step of the main loop: that for a moment the old health checker still runs beside the new
  one is not visible. Scripts and load tests are not part of the program.
\<close>

section \<open>Across components\<close>




text \<open>The target of a request is listed: an IPv4 address with its port as a backend of some route, a name as
  the key of some route.\<close>

definition listed :: "unicode \<Rightarrow> (string, string list) gomap \<Rightarrow> request \<Rightarrow> bool" where
  "listed u routes req \<longleftrightarrow> (\<exists>e \<in> set routes.
     if req_atyp req = 0x01 then request_addr req \<in> set (snd e)
     else normalizeHost u (fst e) = normalizeHost u (socks_normalizeHost u (RouteKey u req)))"

lemma unlisted_connect:
  assumes b: "built (en_unicode E) ord routes (rd_router (s_dialer s))" and "\<not> listed (en_unicode E) routes req"
  shows "\<exists>e s1. connect_loop E None req 0 s = (Inl e, s1) \<and> rd_dials (s_dialer s1) = rd_dials (s_dialer s)"
proof (cases "req_atyp req = 0x01")
  case True
  then have "HostForBackendAddr (rd_router (s_dialer s)) (request_addr req) = None"
    using assms(2) built_set [OF b] by (auto simp: New_host_of_addr [OF b] find_None_iff listed_def)
  then show ?thesis
    using True by (subst connect_loop.simps)
      (simp add: connect_body_def route_of_def currentRouter_def try_discover_def)
next
  case False
  let ?u = "en_unicode E" and ?h = "RouteKey (en_unicode E) req"
  have "gm_get (pools (rd_router (s_dialer s))) (normalizeHost ?u (socks_normalizeHost ?u ?h)) = None"
  proof (rule ccontr)
    assume "gm_get (pools (rd_router (s_dialer s))) (normalizeHost ?u (socks_normalizeHost ?u ?h)) \<noteq> None"
    then show False
      using New_pool_from_route [OF b] assms(2) False by (fastforce simp: listed_def)
  qed
  then have p: "Pick ?u (rd_router (s_dialer s)) (socks_normalizeHost ?u ?h) = (Inl err_RouteNotFound, rd_router (s_dialer s))"
    by (simp add: Pick_cases)
  have "\<exists>e a d. DialRoute ?u (en_dial E 0) (s_dialer s) ?h = (Inl e, a, d) \<and> rd_dials d = rd_dials (s_dialer s)"
    by (cases "sem_try (rd_inflightSem (s_dialer s))") (simp_all add: DialRoute_def dial_picked_def currentRouter_def p Let_def)
  then obtain e a d where d: "DialRoute ?u (en_dial E 0) (s_dialer s) ?h = (Inl e, a, d)" "rd_dials d = rd_dials (s_dialer s)"
    by blast
  then show ?thesis
    using False by (subst connect_loop.simps)
      (simp add: connect_body_def route_of_def dial_attempt_def try_discover_def Let_def)
qed

text \<open>C1: deny all, allow listed. Without auto-discovery, a client whose well-formed request names a target that no
  route lists gets exactly the negotiation answer and one host-unreachable reply, the session ends
  with an error, and no backend is dialled.\<close>

theorem unlisted_target_denied:
  assumes "is_order ord" and "gm_inv routes" and "Router.New (en_unicode E) ord routes = Inr (rd_router (s_dialer s))"
    and "\<not> listed (en_unicode E) routes req"
    and "inp (s_client s) = [0x05, of_nat (length ms)] @ ms @ enc_request req @ payload"
    and "ms \<noteq> []" "length ms \<le> 255" "0x00 \<in> set ms" "request_wf req" "\<forall>k. wres (s_client s) k = None"
  shows "\<exists>e s'. handleConnection E None rt wt it s = (Some e, s')
    \<and> outp (s_client s') = outp (s_client s) @ [0x05, 0x00] @ failure_reply 0x04
    \<and> rd_dials (s_dialer s') = rd_dials (s_dialer s)"
proof -
  let ?s1 = "after_request E (greeted payload (s_client s)) s"
  have b: "built (en_unicode E) ord routes (rd_router (s_dialer ?s1))"
    using assms(1-3) by (simp add: built_def)
  from unlisted_connect [OF b assms(4)] obtain e s' where c: "connect_loop E None req 0 ?s1 = (Inl e, s')"
    "rd_dials (s_dialer s') = rd_dials (s_dialer s)"
    by auto
  have "handleConnection E None rt wt it s = (Some e, s')"
    using negotiation [OF assms(5-9), of E None rt wt it] assms(10) c(1) by simp
  moreover have "outp (s_client s') = outp (s_client s) @ [0x05, 0x00] @ failure_reply 0x04"
    using connect_client [OF c(1)] assms(10)
    by (simp add: greeted_def writeFailureReply_def conn_write_def failure_reply_def)
  ultimately show ?thesis
    using c(2) by blast
qed

definition demo_stranger :: request where
  "demo_stranger = \<lparr>req_atyp = 0x03, req_host = ''evil'', req_port = 80\<rparr>"

theorem unlisted_target_denied_witness:
  "\<exists>e s'. demo_run ([0x05, 0x01, 0x00] @ enc_request demo_stranger) = (Some e, s')
     \<and> outp (s_client s') = [0x05, 0x00] @ failure_reply 0x04 \<and> rd_dials (s_dialer s') = []"
proof -
  let ?s = "demo_session ([0x05, 0x01, 0x00] @ enc_request demo_stranger)"
  have n: "normalizeHost ascii_tables (socks_normalizeHost ascii_tables (RouteKey ascii_tables demo_stranger)) = ''evil''"
    by code_simp
  have "\<not> listed (en_unicode demo_env) demo_routes demo_stranger"
    using n by (simp add: listed_def demo_env_def demo_routes_def demo_keys_norm) (simp add: demo_stranger_def)
  moreover have "Router.New (en_unicode demo_env) rev demo_routes = Inr (rd_router (s_dialer ?s))"
    using demo_router_New by (simp add: demo_env_def demo_session_def demo_dialer_def newRouteDialer_def)
  moreover have "request_wf demo_stranger"
    by (simp add: request_wf_def demo_stranger_def)
  ultimately show ?thesis
    using unlisted_target_denied [OF is_order_rev demo_routes_inv, where E = demo_env and s = ?s and req = demo_stranger
        and ms = "[0x00]" and payload = "[]" and rt = 10 and wt = 10 and it = 300]
    by (simp add: demo_session_def demo_conn_def demo_dialer_def newRouteDialer_def)
qed

end
